theory Spec2Isabelle
  imports Complex_Main "HOL-Library.Signed_Division" "HOL-Library.Multiset"
begin

section \<open>Data model\<close>

text \<open>
  The structs of the source.  C++ \<open>int\<close> is modelled as \<open>int\<close> (signed overflow is
  undefined behaviour in the source and no property below relies on it), \<open>double\<close> as
  \<open>real\<close>, and the result of a division of doubles as a \<open>quotient\<close>, which is a number,
  an infinity or no number.  The field \<open>id\<close> of \<open>Patient\<close> is called \<open>pid\<close>, since \<open>id\<close> is the
  identity function of HOL.
\<close>

record Patient =
  pid :: int
  arrivalTime :: int
  severity :: int
  treatmentTime :: int
  waitTime :: int
  startTreatmentTime :: int

record Resource =
  available :: bool
  endTime :: int

text \<open>
  \<open>PatientComparator::operator()\<close>: the "less than" of the priority queue; the greatest
  element is on top.
\<close>

definition PatientComparator :: "Patient \<Rightarrow> Patient \<Rightarrow> bool" where
  "PatientComparator a b =
     (if severity a \<noteq> severity b then severity a < severity b
      else arrivalTime a > arrivalTime b)"

section \<open>The random number generator\<close>

text \<open>
  The generator \<open>std::mt19937\<close> and the distributions of the standard library are not part
  of the repository.  The generator is modelled as an oracle: the sequence of raw
  integers that the uniform integer distributions consume, the sequence of unit-rate
  exponential variates that the exponential distributions consume, and the number of
  draws made so far.  Every draw advances the generator by one.
\<close>

record mt19937 =
  uniform_src :: "nat \<Rightarrow> nat"
  exponential_src :: "nat \<Rightarrow> real"
  draws :: nat

text \<open>
  \<open>std::uniform_int_distribution<int> dist(a, b); dist(rng)\<close>: a value of the closed range
  \<open>[a, b]\<close> (the standard requires \<open>a \<le> b\<close>).
\<close>

definition uniform_int_distribution :: "int \<Rightarrow> int \<Rightarrow> mt19937 \<Rightarrow> int \<times> mt19937" where
  "uniform_int_distribution a b g =
     (a + int (uniform_src g (draws g) mod nat (b - a + 1)), g\<lparr>draws := Suc (draws g)\<rparr>)"

text \<open>
  \<open>std::exponential_distribution<double> dist(rate); dist(rng)\<close>: the constructor's
  argument is the rate of the distribution, whose mean is \<open>1 / rate\<close>; a variate of rate
  \<open>rate\<close> is a unit-rate variate divided by \<open>rate\<close>.
\<close>

definition exponential_distribution :: "real \<Rightarrow> mt19937 \<Rightarrow> real \<times> mt19937" where
  "exponential_distribution rate g =
     (exponential_src g (draws g) / rate, g\<lparr>draws := Suc (draws g)\<rparr>)"

text \<open>\<open>static_cast<int>\<close> of a \<open>double\<close> truncates towards zero.\<close>

definition static_cast_int :: "real \<Rightarrow> int" where
  "static_cast_int x = (if 0 \<le> x then \<lfloor>x\<rfloor> else \<lceil>x\<rceil>)"

section \<open>The generators of the source\<close>

definition generateArrivalTime :: "int \<Rightarrow> real \<Rightarrow> mt19937 \<Rightarrow> int \<times> mt19937" where
  "generateArrivalTime currentTime lambdaPerHour g =
     (let (hoursToNext, g') = exponential_distribution (1 / lambdaPerHour) g
      in (currentTime + static_cast_int (hoursToNext * 60), g'))"

text \<open>
  Follows the specification's words, for comparison with \<open>generateArrivalTime\<close>: the time
  to the next arrival is exponential with mean \<open>60 / ratePerHour\<close> minutes, that is a
  unit-rate variate times \<open>60 / ratePerHour\<close>, in whole minutes.
\<close>

definition generateArrivalTime_spec :: "int \<Rightarrow> real \<Rightarrow> mt19937 \<Rightarrow> int \<times> mt19937" where
  "generateArrivalTime_spec currentTime ratePerHour g =
     (currentTime + static_cast_int (exponential_src g (draws g) * (60 / ratePerHour)),
      g\<lparr>draws := Suc (draws g)\<rparr>)"

definition generateSeverity :: "mt19937 \<Rightarrow> int \<times> mt19937" where
  "generateSeverity g =
     (let (roll, g') = uniform_int_distribution 1 10 g
      in ((if roll \<ge> 7 then 5 else if roll \<ge> 5 then 4 else if roll \<ge> 3 then 3
           else if roll \<ge> 2 then 2 else 1), g'))"

definition generateTreatmentTime :: "int \<Rightarrow> mt19937 \<Rightarrow> int \<times> mt19937" where
  "generateTreatmentTime sev g = uniform_int_distribution (30 + (sev * 10)) 120 g"

definition predictArrivalRate :: "int \<Rightarrow> real" where
  "predictArrivalRate currentHour =
     (if currentHour \<ge> 18 \<and> currentHour \<le> 22 then 8
      else if currentHour \<ge> 0 \<and> currentHour \<le> 6 then 2
      else 5)"

section \<open>The priority queue\<close>

text \<open>
  \<open>std::priority_queue<Patient, std::vector<Patient>, PatientComparator>\<close> is modelled by
  the list of its elements in the order of their insertion.  \<open>top\<close> is a greatest element
  for the comparator; among elements that the comparator does not tell apart the standard
  leaves the choice open, and the model takes the one inserted first.  \<open>pq_set_top\<close> is
  the write through the non-const reference to \<open>top()\<close> that \<open>main\<close> obtains with a
  \<open>const_cast\<close>.
\<close>

fun top_index :: "Patient list \<Rightarrow> nat" where
  "top_index [] = 0"
| "top_index (p # q) =
     (if q = [] then 0
      else (let i = top_index q in if PatientComparator p (q ! i) then Suc i else 0))"

definition pq_top :: "Patient list \<Rightarrow> Patient" where
  "pq_top q = q ! top_index q"

definition pq_push :: "Patient \<Rightarrow> Patient list \<Rightarrow> Patient list" where
  "pq_push p q = q @ [p]"

definition pq_set_top :: "Patient \<Rightarrow> Patient list \<Rightarrow> Patient list" where
  "pq_set_top p q = q[top_index q := p]"

definition pq_pop :: "Patient list \<Rightarrow> Patient list" where
  "pq_pop q = take (top_index q) q @ drop (Suc (top_index q)) q"

section \<open>The simulation\<close>

text \<open>
  The constants of \<open>main\<close>, which the specification takes as the configuration of a run.
\<close>

record config =
  SIMULATION_MINUTES :: int
  NUM_DOCTORS :: int
  NUM_BEDS :: int
  BASE_LAMBDA :: real

definition configured :: config where
  "configured = \<lparr>SIMULATION_MINUTES = 1440, NUM_DOCTORS = 5, NUM_BEDS = 10, BASE_LAMBDA = 5\<rparr>"

text \<open>The local variables of \<open>main\<close>.\<close>

record sim =
  rng :: mt19937
  doctors :: "Resource list"
  beds :: "Resource list"
  waitingRoom :: "Patient list"
  allPatients :: "Patient list"
  nextPatientId :: int
  currentTime :: int
  nextArrivalTime :: int
  totalWaitTime :: real
  totalPatients :: int
  patientsTreated :: int
  doctorUtilization :: real
  bedUtilization :: real

definition init :: "config \<Rightarrow> mt19937 \<Rightarrow> sim" where
  "init c g =
     (let (t, g') = generateArrivalTime 0 (BASE_LAMBDA c) g
      in \<lparr>rng = g',
          doctors = replicate (nat (NUM_DOCTORS c)) \<lparr>available = True, endTime = 0\<rparr>,
          beds = replicate (nat (NUM_BEDS c)) \<lparr>available = True, endTime = 0\<rparr>,
          waitingRoom = [],
          allPatients = [],
          nextPatientId = 1,
          currentTime = 0,
          nextArrivalTime = t,
          totalWaitTime = 0,
          totalPatients = 0,
          patientsTreated = 0,
          doctorUtilization = 0,
          bedUtilization = 0\<rparr>)"

text \<open>The body of the inner loop that admits one arrival (lines 97 to 107).\<close>

definition admit_patient :: "real \<Rightarrow> sim \<Rightarrow> sim" where
  "admit_patient lambda s =
     (let (sev, g1) = generateSeverity (rng s);
          (tt, g2) = generateTreatmentTime sev g1;
          p = \<lparr>pid = nextPatientId s, arrivalTime = nextArrivalTime s, severity = sev,
               treatmentTime = tt, waitTime = 0, startTreatmentTime = 0\<rparr>;
          (t, g3) = generateArrivalTime (nextArrivalTime s) lambda g2
      in s\<lparr>rng := g3,
            nextPatientId := nextPatientId s + 1,
            waitingRoom := pq_push p (waitingRoom s),
            allPatients := allPatients s @ [p],
            totalPatients := totalPatients s + 1,
            nextArrivalTime := t\<rparr>)"

text \<open>
  The inner loop (line 96).  It does not return when the generator never moves the next
  arrival past the current time, so its result is an option.
\<close>

partial_function (option) generate_arrivals :: "config \<Rightarrow> real \<Rightarrow> sim \<Rightarrow> sim option" where
  "generate_arrivals c lambda s =
     (if nextArrivalTime s \<le> currentTime s \<and> nextArrivalTime s < SIMULATION_MINUTES c
      then generate_arrivals c lambda (admit_patient lambda s)
      else Some s)"

text \<open>
  The two loops over the pools (lines 116 to 123): each marks a unit whose \<open>endTime\<close> has
  passed as available and lowers \<open>nextEventTime\<close> to the unit's \<open>endTime\<close>.
\<close>

definition refresh :: "int \<Rightarrow> Resource \<Rightarrow> Resource" where
  "refresh t r = (if \<not> available r \<and> endTime r \<le> t then r\<lparr>available := True\<rparr> else r)"

fun check_resources :: "int \<Rightarrow> Resource list \<Rightarrow> int \<Rightarrow> Resource list \<times> int" where
  "check_resources t [] nextEventTime = ([], nextEventTime)"
| "check_resources t (r # rs) nextEventTime =
     (let r' = refresh t r;
          (rs', n) = check_resources t rs (min nextEventTime (endTime r'))
      in (r' # rs', n))"

text \<open>Lines 111 to 124: the next event time and the step of the clock.\<close>

definition advance_clock :: "config \<Rightarrow> sim \<Rightarrow> sim" where
  "advance_clock c s =
     (let n0 = SIMULATION_MINUTES c;
          n1 = (if waitingRoom s \<noteq> [] then min n0 (arrivalTime (pq_top (waitingRoom s))) else n0);
          (ds, n2) = check_resources (currentTime s) (doctors s) n1;
          (bs, n3) = check_resources (currentTime s) (beds s) n2
      in s\<lparr>doctors := ds, beds := bs, currentTime := min (currentTime s + 1) n3\<rparr>)"

text \<open>\<open>std::find_if\<close>: the position of the first element that satisfies the predicate.\<close>

fun find_if :: "('a \<Rightarrow> bool) \<Rightarrow> 'a list \<Rightarrow> nat option" where
  "find_if P [] = None"
| "find_if P (x # xs) = (if P x then Some 0 else map_option Suc (find_if P xs))"

text \<open>
  The predicate of both searches (lines 132 to 134 and 137 to 139): the unit is marked
  available and its \<open>endTime\<close> is not after the time of the assignment.
\<close>

definition usable :: "int \<Rightarrow> Resource \<Rightarrow> bool" where
  "usable assignTime r \<longleftrightarrow> available r \<and> assignTime \<ge> endTime r"

text \<open>
  Lines 127 to 140: the decision of the allocation step.  The result is the time of the
  assignment and the positions of the doctor and of the bed that were found, when there is
  a waiting patient and both searches succeed.
\<close>

definition find_assignment :: "sim \<Rightarrow> (int \<times> nat \<times> nat) option" where
  "find_assignment s =
     (if waitingRoom s \<noteq> [] then
        (let topPatient = pq_top (waitingRoom s);
             assignTime = max (currentTime s) (arrivalTime topPatient)
         in case find_if (usable assignTime) (doctors s) of
              None \<Rightarrow> None
            | Some availDoctor \<Rightarrow>
                (case find_if (usable assignTime) (beds s) of
                   None \<Rightarrow> None
                 | Some availBed \<Rightarrow> Some (assignTime, availDoctor, availBed)))
      else None)"

text \<open>
  What the reference \<open>topPatient\<close> denotes after \<open>waitingRoom.pop()\<close> (line 151).  The
  reference was taken to the front slot of the queue's vector.  After the pop this slot
  holds the patient that is now on top.  When the pop has emptied the queue the slot is
  destroyed and reading it is undefined behaviour in C++; the vector keeps its storage,
  and the model takes the patient that was popped, which the storage still holds.
\<close>

definition front_slot :: "Patient \<Rightarrow> Patient list \<Rightarrow> Patient" where
  "front_slot popped q = (if q \<noteq> [] then pq_top q else popped)"

text \<open>
  Lines 141 to 154: the assignment itself.  The waiting time and the end times are
  computed from the patient on top before the pop (lines 142 to 149); the two utilisation
  accumulators are increased after the pop (lines 153 and 154), by the treatment time that
  is read through the reference \<open>topPatient\<close> then.
\<close>

definition assign_resources :: "sim \<Rightarrow> sim" where
  "assign_resources s =
     (case find_assignment s of
        None \<Rightarrow> s
      | Some (assignTime, availDoctor, availBed) \<Rightarrow>
          (let topPatient = (pq_top (waitingRoom s))
                 \<lparr>waitTime := assignTime - arrivalTime (pq_top (waitingRoom s)),
                  startTreatmentTime := assignTime\<rparr>;
               busy = \<lparr>available = False, endTime = assignTime + treatmentTime topPatient\<rparr>;
               popped = pq_pop (pq_set_top topPatient (waitingRoom s));
               topPatient' = front_slot topPatient popped
           in s\<lparr>totalWaitTime := totalWaitTime s + real_of_int (waitTime topPatient),
                 doctors := (doctors s)[availDoctor := busy],
                 beds := (beds s)[availBed := busy],
                 waitingRoom := popped,
                 patientsTreated := patientsTreated s + 1,
                 doctorUtilization := doctorUtilization s + real_of_int (treatmentTime topPatient'),
                 bedUtilization := bedUtilization s + real_of_int (treatmentTime topPatient')\<rparr>))"

text \<open>
  The first part of an iteration of the outer loop (lines 93 to 124): the arrivals are
  admitted and the clock is stepped.  Its result is the state in which the allocation
  step decides.
\<close>

definition arrive_and_advance :: "config \<Rightarrow> sim \<Rightarrow> sim option" where
  "arrive_and_advance c s =
     (let currentHour = currentTime s sdiv 60;
          lambda = BASE_LAMBDA c * predictArrivalRate currentHour
      in map_option (advance_clock c) (generate_arrivals c lambda s))"

text \<open>One iteration of the outer loop (lines 93 to 157).\<close>

definition tick :: "config \<Rightarrow> sim \<Rightarrow> sim option" where
  "tick c s = map_option assign_resources (arrive_and_advance c s)"

text \<open>The condition of the outer loop (line 92).\<close>

definition running :: "config \<Rightarrow> sim \<Rightarrow> bool" where
  "running c s \<longleftrightarrow> currentTime s < SIMULATION_MINUTES c \<or> waitingRoom s \<noteq> []"

text \<open>The outer loop: \<open>None\<close> when it does not return.\<close>

partial_function (option) simulate :: "config \<Rightarrow> sim \<Rightarrow> sim option" where
  "simulate c s =
     (if running c s
      then (case tick c s of None \<Rightarrow> None | Some s' \<Rightarrow> simulate c s')
      else Some s)"

text \<open>
  The quotient of two doubles.  The operands are finite here (the accumulators are sums
  of integers and the divisors are integers); a divisor of 0 gives an infinity or, for the
  dividend 0, no number, and never an exception.  Rounding is not modelled.
\<close>

datatype quotient = Number real | PlusInfinity | MinusInfinity | NotANumber

definition double_div :: "real \<Rightarrow> real \<Rightarrow> quotient" where
  "double_div x y =
     (if y \<noteq> 0 then Number (x / y)
      else if 0 < x then PlusInfinity
      else if x < 0 then MinusInfinity
      else NotANumber)"

text \<open>Lines 161 to 163: the summary that \<open>main\<close> prints.\<close>

record summary =
  totalPatientsArrived :: int
  totalPatientsTreated :: int
  avgWaitTime :: quotient
  doctorUtilizationFraction :: quotient
  bedUtilizationFraction :: quotient

definition summarise :: "config \<Rightarrow> sim \<Rightarrow> summary" where
  "summarise c s =
     \<lparr>totalPatientsArrived = totalPatients s,
      totalPatientsTreated = patientsTreated s,
      avgWaitTime =
        (if patientsTreated s > 0
         then double_div (totalWaitTime s) (real_of_int (patientsTreated s)) else Number 0),
      doctorUtilizationFraction =
        (if NUM_DOCTORS c > 0
         then double_div (doctorUtilization s) (real_of_int (NUM_DOCTORS c * SIMULATION_MINUTES c))
         else Number 0),
      bedUtilizationFraction =
        (if NUM_BEDS c > 0
         then double_div (bedUtilization s) (real_of_int (NUM_BEDS c * SIMULATION_MINUTES c))
         else Number 0)\<rparr>"

definition main :: "config \<Rightarrow> mt19937 \<Rightarrow> summary option" where
  "main c g = map_option (summarise c) (simulate c (init c g))"

text \<open>
  The states at the head of the outer loop that a run from the generator \<open>g\<close> reaches.
\<close>

inductive reachable :: "config \<Rightarrow> mt19937 \<Rightarrow> sim \<Rightarrow> bool" for c g where
  reachable_init: "reachable c g (init c g)"
| reachable_tick: "reachable c g s \<Longrightarrow> running c s \<Longrightarrow> tick c s = Some s' \<Longrightarrow> reachable c g s'"

section \<open>Runs and their bookings\<close>

text \<open>
  The booking that the allocation step makes in a state: the doctor and the bed that it
  acquires, from the time of the assignment until that time plus the treatment time of
  the patient on top of the queue.  The list is empty when the step assigns nothing.
\<close>

record booking =
  doctor_unit :: nat
  bed_unit :: nat
  busy_from :: int
  busy_until :: int

definition bookings_of :: "sim \<Rightarrow> booking list" where
  "bookings_of s =
     (case find_assignment s of
        None \<Rightarrow> []
      | Some (assignTime, availDoctor, availBed) \<Rightarrow>
          [\<lparr>doctor_unit = availDoctor, bed_unit = availBed, busy_from = assignTime,
            busy_until = assignTime + treatmentTime (pq_top (waitingRoom s))\<rparr>])"

text \<open>
  The states at the head of the outer loop together with the bookings made on the way, in
  the order in which they were made.
\<close>

inductive run_log :: "config \<Rightarrow> mt19937 \<Rightarrow> sim \<Rightarrow> booking list \<Rightarrow> bool" for c g where
  run_log_init: "run_log c g (init c g) []"
| run_log_tick: "run_log c g s bks \<Longrightarrow> running c s \<Longrightarrow> arrive_and_advance c s = Some s1 \<Longrightarrow>
     run_log c g (assign_resources s1) (bks @ bookings_of s1)"

section \<open>Invariants\<close>

text \<open>
  What a run may assume of its inputs: the horizon and the base rate are not negative, and
  the variates of the exponential distribution are not negative.
\<close>

definition well_formed :: "config \<Rightarrow> mt19937 \<Rightarrow> bool" where
  "well_formed c g \<longleftrightarrow>
     0 \<le> SIMULATION_MINUTES c \<and> 0 \<le> BASE_LAMBDA c \<and> (\<forall>k. 0 \<le> exponential_src g k)"

text \<open>All units of both pools.\<close>

definition units :: "sim \<Rightarrow> Resource set" where
  "units s = set (doctors s) \<union> set (beds s)"

text \<open>
  The invariant of the outer loop for well-formed inputs: the clock is between 0 and the
  horizon and not after the next arrival, every waiting patient arrived at the current
  time and has a positive treatment time, no unit ends before the current time, and a
  unit marked available has ended.
\<close>

definition loop_inv :: "config \<Rightarrow> mt19937 \<Rightarrow> sim \<Rightarrow> bool" where
  "loop_inv c g s \<longleftrightarrow>
     exponential_src (rng s) = exponential_src g \<and>
     0 \<le> currentTime s \<and> currentTime s \<le> SIMULATION_MINUTES c \<and>
     currentTime s \<le> nextArrivalTime s \<and>
     (\<forall>p\<in>set (waitingRoom s). arrivalTime p = currentTime s \<and> 0 < treatmentTime p) \<and>
     (\<forall>r\<in>units s. currentTime s \<le> endTime r \<and> (available r \<longrightarrow> endTime r \<le> currentTime s))"

text \<open>
  The invariant that holds in addition when there are fewer doctors than beds: the clock
  is at 0, a doctor that is not available ends later than 0, and no more beds have left
  the end time 0 than doctors are unavailable.
\<close>

definition stuck :: "config \<Rightarrow> sim \<Rightarrow> bool" where
  "stuck c s \<longleftrightarrow>
     currentTime s = 0 \<and>
     length (doctors s) = nat (NUM_DOCTORS c) \<and> length (beds s) = nat (NUM_BEDS c) \<and>
     (\<forall>r\<in>set (doctors s). \<not> available r \<longrightarrow> 0 < endTime r) \<and>
     length (filter (\<lambda>r. endTime r \<noteq> 0) (beds s)) \<le> length (filter (\<lambda>r. \<not> available r) (doctors s))"

text \<open>
  The invariant of a run with its bookings: every waiting patient has a positive
  treatment time, every booking names units of the pools and ends no later than its
  units' \<open>endTime\<close>, and a later booking of a unit starts no earlier than an earlier
  booking of the same unit ends.
\<close>

definition sequential :: "booking list \<Rightarrow> bool" where
  "sequential bks \<longleftrightarrow>
     (\<forall>i<length bks. \<forall>j<length bks. i < j \<longrightarrow>
        (doctor_unit (bks ! i) = doctor_unit (bks ! j) \<longrightarrow> busy_until (bks ! i) \<le> busy_from (bks ! j)) \<and>
        (bed_unit (bks ! i) = bed_unit (bks ! j) \<longrightarrow> busy_until (bks ! i) \<le> busy_from (bks ! j)))"

definition log_inv :: "sim \<Rightarrow> booking list \<Rightarrow> bool" where
  "log_inv s bks \<longleftrightarrow>
     (\<forall>p\<in>set (waitingRoom s). 0 < treatmentTime p) \<and>
     (\<forall>e\<in>set bks.
        doctor_unit e < length (doctors s) \<and> busy_until e \<le> endTime (doctors s ! doctor_unit e) \<and>
        bed_unit e < length (beds s) \<and> busy_until e \<le> endTime (beds s ! bed_unit e)) \<and>
     sequential bks"

section \<open>Auxiliary values\<close>

text \<open>The patient that the body of the inner loop creates in a state.\<close>

definition new_patient :: "sim \<Rightarrow> Patient" where
  "new_patient s =
     \<lparr>pid = nextPatientId s, arrivalTime = nextArrivalTime s,
      severity = fst (generateSeverity (rng s)),
      treatmentTime = fst (generateTreatmentTime (fst (generateSeverity (rng s)))
                             (snd (generateSeverity (rng s)))),
      waitTime = 0, startTreatmentTime = 0\<rparr>"

text \<open>The value of \<open>nextEventTime\<close> at line 124.\<close>

definition nextEventTime :: "config \<Rightarrow> sim \<Rightarrow> int" where
  "nextEventTime c s =
     fold (\<lambda>r m. min m (endTime r)) (beds s)
       (fold (\<lambda>r m. min m (endTime r)) (doctors s)
          (if waitingRoom s \<noteq> [] then min (SIMULATION_MINUTES c) (arrivalTime (pq_top (waitingRoom s)))
           else SIMULATION_MINUTES c))"

section \<open>The data of an example run\<close>

text \<open>
  A generator for the examples, after \<open>n\<close> draws: every uniform draw is the lowest value of
  its range (severity 1, treatment time 40), the first exponential variate is 0, the
  second is 1/15 and all later ones are 1.
\<close>

definition example_rng :: "nat \<Rightarrow> mt19937" where
  "example_rng n =
     \<lparr>uniform_src = (\<lambda>_. 0),
      exponential_src = (\<lambda>k. if k = 0 then 0 else if k = 3 then 1 / 15 else 1),
      draws = n\<rparr>"

text \<open>The configuration of \<open>main\<close> with one doctor and one bed.\<close>

definition one_of_each :: config where
  "one_of_each = \<lparr>SIMULATION_MINUTES = 1440, NUM_DOCTORS = 1, NUM_BEDS = 1, BASE_LAMBDA = 5\<rparr>"

text \<open>
  One doctor and one bed with the horizon \<open>h\<close>, and the case of a horizon of 45 minutes.
\<close>

definition one_pair :: "int \<Rightarrow> config" where
  "one_pair h = \<lparr>SIMULATION_MINUTES = h, NUM_DOCTORS = 1, NUM_BEDS = 1, BASE_LAMBDA = 5\<rparr>"

definition short_day :: config where
  "short_day = one_pair 45"

text \<open>
  States of the run of one doctor and one bed from \<open>example_rng 0\<close>, which are the same
  for every horizon above 40: the state in which the first
  allocation step decides, the state at minute \<open>t\<close> after the first booking, and the state
  in which the allocation step decides on the second patient.
\<close>

definition first_patient :: Patient where
  "first_patient = \<lparr>pid = 1, arrivalTime = 0, severity = 1, treatmentTime = 40, waitTime = 0,
     startTreatmentTime = 0\<rparr>"

definition second_patient :: Patient where
  "second_patient = \<lparr>pid = 2, arrivalTime = 40, severity = 1, treatmentTime = 40, waitTime = 0,
     startTreatmentTime = 0\<rparr>"

definition first_decision :: sim where
  "first_decision =
     \<lparr>rng = example_rng 4,
      doctors = [\<lparr>available = True, endTime = 0\<rparr>], beds = [\<lparr>available = True, endTime = 0\<rparr>],
      waitingRoom = [first_patient], allPatients = [first_patient], nextPatientId = 2,
      currentTime = 0, nextArrivalTime = 40, totalWaitTime = 0, totalPatients = 1,
      patientsTreated = 0, doctorUtilization = 0, bedUtilization = 0\<rparr>"

definition after_first :: "int \<Rightarrow> sim" where
  "after_first t =
     \<lparr>rng = example_rng 4,
      doctors = [\<lparr>available = False, endTime = 40\<rparr>], beds = [\<lparr>available = False, endTime = 40\<rparr>],
      waitingRoom = [], allPatients = [first_patient], nextPatientId = 2,
      currentTime = t, nextArrivalTime = 40, totalWaitTime = 0, totalPatients = 1,
      patientsTreated = 1, doctorUtilization = 40, bedUtilization = 40\<rparr>"

definition second_decision :: sim where
  "second_decision =
     \<lparr>rng = example_rng 7,
      doctors = [\<lparr>available = True, endTime = 40\<rparr>], beds = [\<lparr>available = True, endTime = 40\<rparr>],
      waitingRoom = [second_patient], allPatients = [first_patient, second_patient],
      nextPatientId = 3, currentTime = 40, nextArrivalTime = 640, totalWaitTime = 0,
      totalPatients = 2, patientsTreated = 1, doctorUtilization = 40, bedUtilization = 40\<rparr>"

definition after_second :: sim where
  "after_second =
     \<lparr>rng = example_rng 7,
      doctors = [\<lparr>available = False, endTime = 80\<rparr>], beds = [\<lparr>available = False, endTime = 80\<rparr>],
      waitingRoom = [], allPatients = [first_patient, second_patient],
      nextPatientId = 3, currentTime = 40, nextArrivalTime = 640, totalWaitTime = 0,
      totalPatients = 2, patientsTreated = 2, doctorUtilization = 80, bedUtilization = 80\<rparr>"

text \<open>The state at minute \<open>t\<close> after the second booking.\<close>

definition winding_down :: "int \<Rightarrow> sim" where
  "winding_down t = after_second\<lparr>currentTime := t\<rparr>"

section \<open>The refresh of the pools\<close>

lemma check_resources_fst: "fst (check_resources t rs n) = map (refresh t) rs"
  by (induction rs arbitrary: n) (simp_all add: Let_def case_prod_unfold)

lemma refresh_endTime [simp]: "endTime (refresh t r) = endTime r"
  by (simp add: refresh_def)

lemma check_resources_snd:
  "snd (check_resources t rs n) = fold (\<lambda>r m. min m (endTime r)) rs n"
  by (induction rs arbitrary: n) (simp_all add: Let_def case_prod_unfold)

lemma refresh_refresh: "refresh t (refresh t r) = refresh t r"
  by (simp add: refresh_def)

text \<open>
  C10.  Running the loop that refreshes a pool a second time at the same current time
  leaves the pool as the first run left it; this holds for any pool, so for the doctors
  and for the beds.
\<close>

theorem refresh_idempotent:
  "fst (check_resources t (fst (check_resources t rs n)) n') = fst (check_resources t rs n)"
  by (simp add: check_resources_fst refresh_refresh)

theorem refresh_idempotent_witness:
  "fst (check_resources 50 (fst (check_resources 50
      [\<lparr>available = False, endTime = 40\<rparr>, \<lparr>available = False, endTime = 90\<rparr>] 1440)) 1440)
   = [\<lparr>available = True, endTime = 40\<rparr>, \<lparr>available = False, endTime = 90\<rparr>]"
  using refresh_idempotent [of 50
      "[\<lparr>available = False, endTime = 40\<rparr>, \<lparr>available = False, endTime = 90\<rparr>]" 1440 1440]
  by (simp add: refresh_def)

section \<open>The waiting queue\<close>

lemma PatientComparator_negtrans:
  "\<not> PatientComparator a b \<Longrightarrow> \<not> PatientComparator b c \<Longrightarrow> \<not> PatientComparator a c"
  by (auto simp: PatientComparator_def split: if_splits)

lemma pq_top_Cons:
  "q \<noteq> [] \<Longrightarrow> pq_top (p # q) = (if PatientComparator p (pq_top q) then pq_top q else p)"
  by (simp add: pq_top_def Let_def)

lemma pq_top_greatest: "p \<in> set q \<Longrightarrow> \<not> PatientComparator (pq_top q) p"
proof (induction q)
  case Nil
  then show ?case by simp
next
  case (Cons a q)
  show ?case
  proof (cases "q = []")
    case True
    with Cons.prems show ?thesis by (simp add: pq_top_def PatientComparator_def)
  next
    case False
    from Cons.prems have pa: "p = a \<or> p \<in> set q" by simp
    show ?thesis
    proof (cases "PatientComparator a (pq_top q)")
      case True
      then have t: "pq_top (a # q) = pq_top q" using False by (simp add: pq_top_Cons)
      from pa show ?thesis
      proof
        assume "p = a"
        with True show ?thesis unfolding t by (auto simp: PatientComparator_def split: if_splits)
      next
        assume "p \<in> set q"
        then show ?thesis unfolding t by (rule Cons.IH)
      qed
    next
      case lower: False
      then have t: "pq_top (a # q) = a" using False by (simp add: pq_top_Cons)
      from pa show ?thesis
      proof
        assume "p = a"
        then show ?thesis unfolding t by (simp add: PatientComparator_def)
      next
        assume "p \<in> set q"
        then have "\<not> PatientComparator (pq_top q) p" by (rule Cons.IH)
        with lower show ?thesis unfolding t by (rule PatientComparator_negtrans)
      qed
    qed
  qed
qed


lemma top_index_less: "q \<noteq> [] \<Longrightarrow> top_index q < length q"
  by (induction q) (auto simp: Let_def)

lemma pq_top_in: "q \<noteq> [] \<Longrightarrow> pq_top q \<in> set q"
  by (simp add: pq_top_def top_index_less)

lemma mset_pq_pop: "q \<noteq> [] \<Longrightarrow> mset (pq_pop q) = mset q - {#pq_top q#}"
proof -
  assume "q \<noteq> []"
  then have i: "top_index q < length q" by (rule top_index_less)
  have "q = take (top_index q) q @ q ! top_index q # drop (Suc (top_index q)) q"
    using i by (simp add: id_take_nth_drop)
  then have "mset q = add_mset (pq_top q) (mset (pq_pop q))"
    unfolding pq_pop_def pq_top_def by (metis mset.simps(2) mset_append union_mset_add_mset_right)
  then show ?thesis by simp
qed

lemma top_index_key:
  "map severity q = map severity q' \<Longrightarrow> map arrivalTime q = map arrivalTime q' \<Longrightarrow>
   top_index q = top_index q'"
proof (induction q arbitrary: q')
  case Nil
  then show ?case by simp
next
  case (Cons a q)
  then obtain a' r where q': "q' = a' # r" by (cases q') auto
  with Cons.prems have k: "severity a = severity a'" "arrivalTime a = arrivalTime a'"
    "map severity q = map severity r" "map arrivalTime q = map arrivalTime r" by auto
  then have ih: "top_index q = top_index r" by (intro Cons.IH)
  have e: "q = [] \<longleftrightarrow> r = []" using k(3) by (metis map_is_Nil_conv)
  show ?case
  proof (cases "q = []")
    case True
    then show ?thesis using e q' by simp
  next
    case False
    then have r: "r \<noteq> []" using e by simp
    have i: "top_index q < length q" using False by (rule top_index_less)
    have l: "length q = length r" using k(3) by (metis length_map)
    have "severity (q ! top_index q) = severity (r ! top_index q)"
      using i l k(3) by (metis nth_map)
    moreover have "arrivalTime (q ! top_index q) = arrivalTime (r ! top_index q)"
      using i l k(4) by (metis nth_map)
    ultimately have "PatientComparator a (q ! top_index q) = PatientComparator a' (r ! top_index r)"
      using k(1,2) ih by (simp add: PatientComparator_def)
    then show ?thesis using False r q' ih by (simp add: Let_def)
  qed
qed

lemma pq_pop_set_top:
  assumes "severity p = severity (pq_top q)" "arrivalTime p = arrivalTime (pq_top q)"
  shows "pq_pop (pq_set_top p q) = pq_pop q"
proof (cases "q = []")
  case True
  then show ?thesis by (simp add: pq_set_top_def)
next
  case False
  then have i: "top_index q < length q" by (rule top_index_less)
  have "map severity (q[top_index q := p]) = map severity q"
    using assms(1) i by (intro nth_equalityI) (auto simp: nth_list_update pq_top_def)
  moreover have "map arrivalTime (q[top_index q := p]) = map arrivalTime q"
    using assms(2) i by (intro nth_equalityI) (auto simp: nth_list_update pq_top_def)
  ultimately have "top_index (q[top_index q := p]) = top_index q" by (rule top_index_key)
  then show ?thesis by (simp add: pq_pop_def pq_set_top_def)
qed


section \<open>The allocation step\<close>

lemma find_if_None: "find_if P xs = None \<longleftrightarrow> (\<forall>x\<in>set xs. \<not> P x)"
  by (induction xs) auto

lemma find_if_Some:
  "find_if P xs = Some i \<Longrightarrow> i < length xs \<and> P (xs ! i) \<and> (\<forall>j<i. \<not> P (xs ! j))"
proof (induction xs arbitrary: i)
  case Nil
  then show ?case by simp
next
  case (Cons x xs)
  show ?case
  proof (cases "P x")
    case True
    with Cons.prems show ?thesis by simp
  next
    case False
    with Cons.prems obtain k where k: "find_if P xs = Some k" "i = Suc k" by auto
    from Cons.IH [OF k(1)] have "k < length xs" "P (xs ! k)" "\<forall>j<k. \<not> P (xs ! j)" by auto
    then show ?thesis using False k(2) by (auto simp: nth_Cons split: nat.splits)
  qed
qed

lemma find_assignment_Some:
  assumes "find_assignment s = Some (t, d, b)"
  shows "waitingRoom s \<noteq> []" "t = max (currentTime s) (arrivalTime (pq_top (waitingRoom s)))"
    "d < length (doctors s)" "usable t (doctors s ! d)"
    "b < length (beds s)" "usable t (beds s ! b)"
  using assms
  by (auto simp: find_assignment_def Let_def split: if_splits option.splits dest: find_if_Some)

lemma assign_resources_None: "find_assignment s = None \<Longrightarrow> assign_resources s = s"
  by (simp add: assign_resources_def)

lemma treatmentTime_front_slot:
  "treatmentTime (front_slot (p\<lparr>waitTime := w, startTreatmentTime := b\<rparr>) q) =
   treatmentTime (front_slot p q)"
  by (simp add: front_slot_def)

lemma assign_resources_Some:
  assumes "find_assignment s = Some (t, d, b)"
  shows "assign_resources s =
     s\<lparr>totalWaitTime := totalWaitTime s + real_of_int (t - arrivalTime (pq_top (waitingRoom s))),
       doctors := (doctors s)[d := \<lparr>available = False, endTime = t + treatmentTime (pq_top (waitingRoom s))\<rparr>],
       beds := (beds s)[b := \<lparr>available = False, endTime = t + treatmentTime (pq_top (waitingRoom s))\<rparr>],
       waitingRoom := pq_pop (waitingRoom s),
       patientsTreated := patientsTreated s + 1,
       doctorUtilization := doctorUtilization s +
         real_of_int (treatmentTime (front_slot (pq_top (waitingRoom s)) (pq_pop (waitingRoom s)))),
       bedUtilization := bedUtilization s +
         real_of_int (treatmentTime (front_slot (pq_top (waitingRoom s)) (pq_pop (waitingRoom s))))\<rparr>"
  using assms
  by (simp add: assign_resources_def Let_def pq_pop_set_top treatmentTime_front_slot)

text \<open>
  C8.  With \<open>t\<close> the time of the assignment, the allocation step changes the state only if
  a patient is waiting and both a doctor and a bed are usable at \<open>t\<close>; when a doctor is
  usable and no bed is, the step returns the state it was given, so the doctors, the beds,
  the queue and the accumulators are all as before.
\<close>

theorem allocation_needs_both:
  assumes "t = max (currentTime s) (arrivalTime (pq_top (waitingRoom s)))"
  shows "(assign_resources s \<noteq> s \<longrightarrow>
            waitingRoom s \<noteq> [] \<and> (\<exists>d<length (doctors s). usable t (doctors s ! d)) \<and>
            (\<exists>b<length (beds s). usable t (beds s ! b))) \<and>
         ((\<exists>d<length (doctors s). usable t (doctors s ! d)) \<and>
            \<not> (\<exists>b<length (beds s). usable t (beds s ! b)) \<longrightarrow> assign_resources s = s)"
proof (cases "find_assignment s")
  case None
  then have e: "assign_resources s = s" by (rule assign_resources_None)
  then show ?thesis by simp
next
  case (Some x)
  obtain t' d b where x: "x = (t', d, b)" by (cases x) auto
  note f = find_assignment_Some [OF Some [unfolded x]]
  from f(2) assms have "t' = t" by simp
  with f show ?thesis by auto
qed


theorem allocation_needs_both_witness:
  "assign_resources
     \<lparr>rng = \<lparr>uniform_src = (\<lambda>_. 0), exponential_src = (\<lambda>_. 0), draws = 0\<rparr>,
      doctors = [\<lparr>available = True, endTime = 0\<rparr>],
      beds = [\<lparr>available = False, endTime = 90\<rparr>],
      waitingRoom = [\<lparr>pid = 1, arrivalTime = 0, severity = 3, treatmentTime = 60,
                       waitTime = 0, startTreatmentTime = 0\<rparr>],
      allPatients = [], nextPatientId = 2, currentTime = 0, nextArrivalTime = 5,
      totalWaitTime = 0, totalPatients = 1, patientsTreated = 0, doctorUtilization = 0,
      bedUtilization = 0\<rparr>
   = \<lparr>rng = \<lparr>uniform_src = (\<lambda>_. 0), exponential_src = (\<lambda>_. 0), draws = 0\<rparr>,
      doctors = [\<lparr>available = True, endTime = 0\<rparr>],
      beds = [\<lparr>available = False, endTime = 90\<rparr>],
      waitingRoom = [\<lparr>pid = 1, arrivalTime = 0, severity = 3, treatmentTime = 60,
                       waitTime = 0, startTreatmentTime = 0\<rparr>],
      allPatients = [], nextPatientId = 2, currentTime = 0, nextArrivalTime = 5,
      totalWaitTime = 0, totalPatients = 1, patientsTreated = 0, doctorUtilization = 0,
      bedUtilization = 0\<rparr>"
  using allocation_needs_both [of 0
    "\<lparr>rng = \<lparr>uniform_src = (\<lambda>_. 0), exponential_src = (\<lambda>_. 0), draws = 0\<rparr>,
      doctors = [\<lparr>available = True, endTime = 0\<rparr>],
      beds = [\<lparr>available = False, endTime = 90\<rparr>],
      waitingRoom = [\<lparr>pid = 1, arrivalTime = 0, severity = 3, treatmentTime = 60,
                       waitTime = 0, startTreatmentTime = 0\<rparr>],
      allPatients = [], nextPatientId = 2, currentTime = 0, nextArrivalTime = 5,
      totalWaitTime = 0, totalPatients = 1, patientsTreated = 0, doctorUtilization = 0,
      bedUtilization = 0\<rparr>"]
  by (simp add: pq_top_def usable_def)

section \<open>The arrival generator\<close>

lemma generateArrivalTime_fst:
  "fst (generateArrivalTime t lam g) =
     t + static_cast_int (exponential_src g (draws g) / (1 / lam) * 60)"
  by (simp add: generateArrivalTime_def exponential_distribution_def)

text \<open>
  C3.  The source documents \<open>lambdaPerHour\<close> as the average number of arrivals per hour,
  but passes \<open>1 / lambdaPerHour\<close> to the exponential distribution as its rate, so the mean
  time to the next arrival is \<open>lambdaPerHour\<close> hours and not \<open>60 / lambdaPerHour\<close>
  minutes.  At time 0, with 5 arrivals per hour and the unit-rate variate 1, the source
  returns minute 300, where the specification's generator returns minute 12.
\<close>

theorem generateArrivalTime_rate_inverted:
  "fst (generateArrivalTime 0 5
          \<lparr>uniform_src = (\<lambda>_. 0), exponential_src = (\<lambda>_. 1), draws = 0\<rparr>) = 300 \<and>
   fst (generateArrivalTime_spec 0 5
          \<lparr>uniform_src = (\<lambda>_. 0), exponential_src = (\<lambda>_. 1), draws = 0\<rparr>) = 12"
  by (simp add: generateArrivalTime_fst generateArrivalTime_spec_def static_cast_int_def)

section \<open>The generators and the inner loop\<close>

lemma static_cast_int_nonneg: "0 \<le> x \<Longrightarrow> 0 \<le> static_cast_int x"
  by (simp add: static_cast_int_def)

lemma generateArrivalTime_ge:
  assumes "0 \<le> lam" "0 \<le> exponential_src g (draws g)"
  shows "t \<le> fst (generateArrivalTime t lam g)"
proof -
  have "0 \<le> exponential_src g (draws g) / (1 / lam) * 60"
    using assms by simp
  then show ?thesis
    by (simp add: generateArrivalTime_fst static_cast_int_nonneg)
qed

lemma generateArrivalTime_src [simp]:
  "exponential_src (snd (generateArrivalTime t lam g)) = exponential_src g"
  "uniform_src (snd (generateArrivalTime t lam g)) = uniform_src g"
  by (simp_all add: generateArrivalTime_def exponential_distribution_def)

lemma uniform_int_distribution_ge: "a \<le> fst (uniform_int_distribution a b g)"
  by (simp add: uniform_int_distribution_def)

lemma uniform_int_distribution_src [simp]:
  "exponential_src (snd (uniform_int_distribution a b g)) = exponential_src g"
  "uniform_src (snd (uniform_int_distribution a b g)) = uniform_src g"
  by (simp_all add: uniform_int_distribution_def)

lemma generateSeverity_ge: "1 \<le> fst (generateSeverity g)"
  by (simp add: generateSeverity_def case_prod_unfold Let_def)

lemma generateSeverity_src [simp]:
  "exponential_src (snd (generateSeverity g)) = exponential_src g"
  "uniform_src (snd (generateSeverity g)) = uniform_src g"
  by (simp_all add: generateSeverity_def case_prod_unfold Let_def)

lemma generateTreatmentTime_ge: "1 \<le> sev \<Longrightarrow> 40 \<le> fst (generateTreatmentTime sev g)"
  using uniform_int_distribution_ge [of "30 + sev * 10" 120 g]
  by (simp add: generateTreatmentTime_def)

lemma generateTreatmentTime_src [simp]:
  "exponential_src (snd (generateTreatmentTime sev g)) = exponential_src g"
  "uniform_src (snd (generateTreatmentTime sev g)) = uniform_src g"
  by (simp_all add: generateTreatmentTime_def)

lemma predictArrivalRate_pos: "0 < predictArrivalRate h"
  by (simp add: predictArrivalRate_def)


text \<open>The effect of admitting one patient, field by field.\<close>

lemma admit_patient_fields:
  "doctors (admit_patient lam s) = doctors s"
  "beds (admit_patient lam s) = beds s"
  "currentTime (admit_patient lam s) = currentTime s"
  "waitingRoom (admit_patient lam s) = waitingRoom s @ [new_patient s]"
  "allPatients (admit_patient lam s) = allPatients s @ [new_patient s]"
  "patientsTreated (admit_patient lam s) = patientsTreated s"
  "exponential_src (rng (admit_patient lam s)) = exponential_src (rng s)"
  by (simp_all add: admit_patient_def new_patient_def pq_push_def case_prod_unfold Let_def)

lemma admit_patient_nextArrivalTime:
  "nextArrivalTime (admit_patient lam s) =
     fst (generateArrivalTime (nextArrivalTime s) lam
           (snd (generateTreatmentTime (fst (generateSeverity (rng s))) (snd (generateSeverity (rng s))))))"
  by (simp add: admit_patient_def case_prod_unfold Let_def)

lemma new_patient_fields:
  "arrivalTime (new_patient s) = nextArrivalTime s"
  "40 \<le> treatmentTime (new_patient s)"
  "waitTime (new_patient s) = 0"
  "startTreatmentTime (new_patient s) = 0"
  using generateTreatmentTime_ge [OF generateSeverity_ge]
  by (simp_all add: new_patient_def)

text \<open>Partial correctness of the inner loop.\<close>

lemma generate_arrivals_rule:
  assumes run: "generate_arrivals c lam s = Some s'"
    and start: "I s"
    and step: "\<And>u. I u \<Longrightarrow> nextArrivalTime u \<le> currentTime u \<Longrightarrow>
            nextArrivalTime u < SIMULATION_MINUTES c \<Longrightarrow> I (admit_patient lam u)"
  shows "I s' \<and> \<not> (nextArrivalTime s' \<le> currentTime s' \<and> nextArrivalTime s' < SIMULATION_MINUTES c)"
proof -
  have "I s \<longrightarrow> (\<forall>u. I u \<longrightarrow> nextArrivalTime u \<le> currentTime u \<longrightarrow>
            nextArrivalTime u < SIMULATION_MINUTES c \<longrightarrow> I (admit_patient lam u)) \<longrightarrow>
        I s' \<and> \<not> (nextArrivalTime s' \<le> currentTime s' \<and> nextArrivalTime s' < SIMULATION_MINUTES c)"
  proof (induction c lam s s' rule: generate_arrivals.raw_induct)
    case (1 f c lam s s')
    show ?case
    proof (cases "nextArrivalTime s \<le> currentTime s \<and> nextArrivalTime s < SIMULATION_MINUTES c")
      case True
      with "1.hyps" have r: "f c lam (admit_patient lam s) = Some s'" by simp
      show ?thesis
      proof (intro impI)
        assume a: "I s"
          and b: "\<forall>u. I u \<longrightarrow> nextArrivalTime u \<le> currentTime u \<longrightarrow>
            nextArrivalTime u < SIMULATION_MINUTES c \<longrightarrow> I (admit_patient lam u)"
        from b a True have "I (admit_patient lam s)" by simp
        with "1.IH" [OF r] b show "I s' \<and> \<not> (nextArrivalTime s' \<le> currentTime s' \<and>
            nextArrivalTime s' < SIMULATION_MINUTES c)" by simp
      qed
    next
      case False
      with "1.hyps" have "s' = s" by simp
      with False show ?thesis by simp
    qed
  qed (fact run)
  moreover have "\<forall>u. I u \<longrightarrow> nextArrivalTime u \<le> currentTime u \<longrightarrow>
            nextArrivalTime u < SIMULATION_MINUTES c \<longrightarrow> I (admit_patient lam u)"
    using step by simp
  ultimately show ?thesis using start by simp
qed

section \<open>The clock and the loop invariant\<close>

lemma fold_min_le: "fold (\<lambda>r m. min m (endTime r)) rs n \<le> n"
proof (induction rs arbitrary: n)
  case Nil
  then show ?case by simp
next
  case (Cons r rs)
  have "fold (\<lambda>r m. min m (endTime r)) rs (min n (endTime r)) \<le> min n (endTime r)"
    by (rule Cons.IH)
  then show ?case by simp
qed

lemma fold_min_le_endTime:
  "r \<in> set rs \<Longrightarrow> fold (\<lambda>r m. min m (endTime r)) rs n \<le> endTime r"
proof (induction rs arbitrary: n)
  case Nil
  then show ?case by simp
next
  case (Cons a rs)
  show ?case
  proof (cases "r = a")
    case True
    have "fold (\<lambda>r m. min m (endTime r)) rs (min n (endTime a)) \<le> min n (endTime a)"
      by (rule fold_min_le)
    with True show ?thesis by simp
  next
    case False
    with Cons.prems have "r \<in> set rs" by simp
    then show ?thesis using Cons.IH by simp
  qed
qed

lemma fold_min_ge:
  "k \<le> n \<Longrightarrow> \<forall>r\<in>set rs. k \<le> endTime r \<Longrightarrow> k \<le> fold (\<lambda>r m. min m (endTime r)) rs n"
  by (induction rs arbitrary: n) simp_all


lemma advance_clock_eq:
  "advance_clock c s =
     s\<lparr>doctors := map (refresh (currentTime s)) (doctors s),
       beds := map (refresh (currentTime s)) (beds s),
       currentTime := min (currentTime s + 1) (nextEventTime c s)\<rparr>"
proof -
  have a: "check_resources t rs n = (map (refresh t) rs, fold (\<lambda>r m. min m (endTime r)) rs n)"
    for t rs n
    using check_resources_fst [of t rs n] check_resources_snd [of t rs n]
    by (metis prod.collapse)
  show ?thesis
    by (simp add: advance_clock_def nextEventTime_def a Let_def)
qed

lemma nextEventTime_le:
  "nextEventTime c s \<le> SIMULATION_MINUTES c"
  "r \<in> units s \<Longrightarrow> nextEventTime c s \<le> endTime r"
  "waitingRoom s \<noteq> [] \<Longrightarrow> nextEventTime c s \<le> arrivalTime (pq_top (waitingRoom s))"
proof -
  let ?n1 = "if waitingRoom s \<noteq> [] then min (SIMULATION_MINUTES c) (arrivalTime (pq_top (waitingRoom s)))
           else SIMULATION_MINUTES c"
  let ?n2 = "fold (\<lambda>r m. min m (endTime r)) (doctors s) ?n1"
  have n: "nextEventTime c s \<le> ?n2" "?n2 \<le> ?n1"
    unfolding nextEventTime_def by (rule fold_min_le)+
  from n show "nextEventTime c s \<le> SIMULATION_MINUTES c" by (simp split: if_splits)
  from n show "nextEventTime c s \<le> arrivalTime (pq_top (waitingRoom s))" if "waitingRoom s \<noteq> []"
    using that by simp
  show "nextEventTime c s \<le> endTime r" if "r \<in> units s"
  proof (cases "r \<in> set (beds s)")
    case True
    then show ?thesis unfolding nextEventTime_def by (rule fold_min_le_endTime)
  next
    case False
    with that have "r \<in> set (doctors s)" by (simp add: units_def)
    then have "?n2 \<le> endTime r" by (rule fold_min_le_endTime)
    with n(1) show ?thesis by simp
  qed
qed

lemma nextEventTime_ge:
  assumes "k \<le> SIMULATION_MINUTES c" "\<forall>r\<in>units s. k \<le> endTime r"
    "waitingRoom s \<noteq> [] \<longrightarrow> k \<le> arrivalTime (pq_top (waitingRoom s))"
  shows "k \<le> nextEventTime c s"
  unfolding nextEventTime_def
  using assms by (intro fold_min_ge) (auto simp: units_def)

lemma loop_inv_init:
  assumes "well_formed c g"
  shows "loop_inv c g (init c g)"
proof -
  have "0 \<le> fst (generateArrivalTime 0 (BASE_LAMBDA c) g)"
    using assms by (intro generateArrivalTime_ge) (simp_all add: well_formed_def)
  then show ?thesis
    using assms by (auto simp: loop_inv_def init_def case_prod_unfold Let_def well_formed_def units_def)
qed

lemma loop_inv_admit:
  assumes wf: "well_formed c g" and lam: "0 \<le> lam" and inv: "loop_inv c g s"
    and due: "nextArrivalTime s \<le> currentTime s"
  shows "loop_inv c g (admit_patient lam s)"
proof -
  let ?g = "snd (generateTreatmentTime (fst (generateSeverity (rng s))) (snd (generateSeverity (rng s))))"
  have src: "exponential_src ?g = exponential_src g"
    using inv by (simp add: loop_inv_def)
  have "0 \<le> exponential_src ?g (draws ?g)"
    using wf unfolding src by (simp add: well_formed_def)
  then have "nextArrivalTime s \<le> fst (generateArrivalTime (nextArrivalTime s) lam ?g)"
    using lam by (intro generateArrivalTime_ge)
  then have n: "nextArrivalTime s \<le> nextArrivalTime (admit_patient lam s)"
    by (simp add: admit_patient_nextArrivalTime)
  have e: "nextArrivalTime s = currentTime s"
    using inv due by (simp add: loop_inv_def)
  have t: "0 < treatmentTime (new_patient s)"
    using new_patient_fields(2) [of s] by simp
  show ?thesis
    using inv n e t
    by (auto simp: loop_inv_def admit_patient_fields new_patient_fields units_def)
qed

lemma units_advance_clock:
  "units (advance_clock c s) = refresh (currentTime s) ` units s"
  by (simp add: advance_clock_eq units_def image_Un)

lemma advance_clock_fields:
  "waitingRoom (advance_clock c s) = waitingRoom s"
  "allPatients (advance_clock c s) = allPatients s"
  "nextArrivalTime (advance_clock c s) = nextArrivalTime s"
  "rng (advance_clock c s) = rng s"
  "patientsTreated (advance_clock c s) = patientsTreated s"
  "currentTime (advance_clock c s) = min (currentTime s + 1) (nextEventTime c s)"
  "length (doctors (advance_clock c s)) = length (doctors s)"
  "length (beds (advance_clock c s)) = length (beds s)"
  by (simp_all add: advance_clock_eq)

lemma loop_inv_advance:
  assumes inv: "loop_inv c g s"
    and exited: "currentTime s < nextArrivalTime s \<or> SIMULATION_MINUTES c \<le> nextArrivalTime s"
  shows "loop_inv c g (advance_clock c s)"
    and "currentTime s \<le> currentTime (advance_clock c s)"
    and "waitingRoom s \<noteq> [] \<Longrightarrow> currentTime (advance_clock c s) = currentTime s"
    and "\<forall>r\<in>units (advance_clock c s). available r \<longleftrightarrow> endTime r \<le> currentTime s"
proof -
  let ?t = "currentTime s" and ?t' = "currentTime (advance_clock c s)"
  have t': "?t' = min (?t + 1) (nextEventTime c s)" by (simp add: advance_clock_fields)
  have top: "arrivalTime (pq_top (waitingRoom s)) = ?t" if "waitingRoom s \<noteq> []"
    using inv pq_top_in [OF that] by (simp add: loop_inv_def)
  have ne: "?t \<le> nextEventTime c s"
    using inv top by (intro nextEventTime_ge) (auto simp: loop_inv_def)
  then show ge: "?t \<le> ?t'" unfolding t' by simp
  have le: "?t' \<le> SIMULATION_MINUTES c" "?t' \<le> ?t + 1"
    unfolding t' using nextEventTime_le(1) [of c s] by simp_all
  show same: "?t' = ?t" if "waitingRoom s \<noteq> []"
  proof -
    have "nextEventTime c s \<le> ?t"
      using nextEventTime_le(3) [OF that, of c] top [OF that] by simp
    with ne show ?thesis unfolding t' by linarith
  qed
  have u: "?t' \<le> endTime r" if "r \<in> units s" for r
    using nextEventTime_le(2) [OF that, of c] unfolding t' by simp
  show av: "\<forall>r\<in>units (advance_clock c s). available r \<longleftrightarrow> endTime r \<le> ?t"
    using inv by (auto simp: units_advance_clock refresh_def loop_inv_def)
  have n: "?t' \<le> nextArrivalTime s" using exited le by auto
  have q: "\<forall>p\<in>set (waitingRoom s). arrivalTime p = ?t' \<and> 0 < treatmentTime p"
  proof (cases "waitingRoom s = []")
    case True
    then show ?thesis by simp
  next
    case False
    then show ?thesis using inv same by (simp add: loop_inv_def)
  qed
  have r: "\<forall>r\<in>units (advance_clock c s). ?t' \<le> endTime r \<and> (available r \<longrightarrow> endTime r \<le> ?t')"
    using av u ge by (auto simp: units_advance_clock)
  have "0 \<le> ?t'" using inv ge by (simp add: loop_inv_def)
  then show "loop_inv c g (advance_clock c s)"
    using inv le n q r by (simp add: loop_inv_def advance_clock_fields)
qed

lemma set_pq_pop: "set (pq_pop q) \<subseteq> set q"
  unfolding pq_pop_def by (auto dest: in_set_takeD in_set_dropD)

lemma assign_resources_fields:
  "currentTime (assign_resources s) = currentTime s"
  "nextArrivalTime (assign_resources s) = nextArrivalTime s"
  "rng (assign_resources s) = rng s"
  "allPatients (assign_resources s) = allPatients s"
  "length (doctors (assign_resources s)) = length (doctors s)"
  "length (beds (assign_resources s)) = length (beds s)"
  "set (waitingRoom (assign_resources s)) \<subseteq> set (waitingRoom s)"
proof -
  show "currentTime (assign_resources s) = currentTime s"
    "nextArrivalTime (assign_resources s) = nextArrivalTime s"
    "rng (assign_resources s) = rng s"
    "allPatients (assign_resources s) = allPatients s"
    "length (doctors (assign_resources s)) = length (doctors s)"
    "length (beds (assign_resources s)) = length (beds s)"
    by (simp_all add: assign_resources_def Let_def split: option.splits)
  show "set (waitingRoom (assign_resources s)) \<subseteq> set (waitingRoom s)"
  proof (cases "find_assignment s")
    case None
    then show ?thesis by (simp add: assign_resources_None)
  next
    case (Some x)
    obtain t d b where "x = (t, d, b)" by (cases x) auto
    with Some show ?thesis by (simp add: assign_resources_Some set_pq_pop)
  qed
qed

lemma units_assign_resources:
  assumes "find_assignment s = Some (t, d, b)"
  shows "units (assign_resources s) \<subseteq>
     insert \<lparr>available = False, endTime = t + treatmentTime (pq_top (waitingRoom s))\<rparr> (units s)"
  using set_update_subset_insert [of "doctors s" d] set_update_subset_insert [of "beds s" b]
  by (auto simp: assign_resources_Some [OF assms] units_def)

lemma loop_inv_assign:
  assumes inv: "loop_inv c g s"
  shows "loop_inv c g (assign_resources s)"
proof (cases "find_assignment s")
  case None
  then show ?thesis using inv by (simp add: assign_resources_None)
next
  case (Some x)
  obtain t d b where x: "x = (t, d, b)" by (cases x) auto
  note f = find_assignment_Some [OF Some [unfolded x]]
  have top: "pq_top (waitingRoom s) \<in> set (waitingRoom s)" using f(1) by (rule pq_top_in)
  then have "arrivalTime (pq_top (waitingRoom s)) = currentTime s" "0 < treatmentTime (pq_top (waitingRoom s))"
    using inv by (simp_all add: loop_inv_def)
  with f(2) have t: "currentTime s \<le> t + treatmentTime (pq_top (waitingRoom s))" by simp
  have u: "\<forall>r\<in>units (assign_resources s).
      currentTime s \<le> endTime r \<and> (available r \<longrightarrow> endTime r \<le> currentTime s)"
    using units_assign_resources [OF Some [unfolded x]] inv t by (auto simp: loop_inv_def)
  have q: "\<forall>p\<in>set (waitingRoom (assign_resources s)). arrivalTime p = currentTime s \<and> 0 < treatmentTime p"
    using assign_resources_fields(7) [of s] inv by (auto simp: loop_inv_def)
  show ?thesis
    using inv u q by (simp add: loop_inv_def assign_resources_fields)
qed

lemma lambda_nonneg: "0 \<le> BASE_LAMBDA c \<Longrightarrow> 0 \<le> BASE_LAMBDA c * predictArrivalRate h"
  using predictArrivalRate_pos [of h] by simp

lemma arrive_and_advance_Some:
  assumes "arrive_and_advance c s = Some s1"
  obtains s0 where
    "generate_arrivals c (BASE_LAMBDA c * predictArrivalRate (currentTime s sdiv 60)) s = Some s0"
    "s1 = advance_clock c s0"
  using assms by (auto simp: arrive_and_advance_def Let_def)

lemma generate_arrivals_loop_inv:
  assumes wf: "well_formed c g" and lam: "0 \<le> lam" and inv: "loop_inv c g s"
    and run: "generate_arrivals c lam s = Some s0"
  shows "loop_inv c g s0"
    and "currentTime s0 = currentTime s"
    and "currentTime s0 < nextArrivalTime s0 \<or> SIMULATION_MINUTES c \<le> nextArrivalTime s0"
proof -
  have "(loop_inv c g s0 \<and> currentTime s0 = currentTime s) \<and>
      \<not> (nextArrivalTime s0 \<le> currentTime s0 \<and> nextArrivalTime s0 < SIMULATION_MINUTES c)"
    using run
  proof (rule generate_arrivals_rule)
    show "loop_inv c g s \<and> currentTime s = currentTime s" using inv by simp
  next
    fix u
    assume "loop_inv c g u \<and> currentTime u = currentTime s" "nextArrivalTime u \<le> currentTime u"
    then show "loop_inv c g (admit_patient lam u) \<and> currentTime (admit_patient lam u) = currentTime s"
      using loop_inv_admit [OF wf lam, of u] by (simp add: admit_patient_fields)
  qed
  then show "loop_inv c g s0" "currentTime s0 = currentTime s"
    "currentTime s0 < nextArrivalTime s0 \<or> SIMULATION_MINUTES c \<le> nextArrivalTime s0"
    by auto
qed

lemma loop_inv_arrive_and_advance:
  assumes wf: "well_formed c g" and inv: "loop_inv c g s"
    and run: "arrive_and_advance c s = Some s1"
  shows "loop_inv c g s1"
    and "currentTime s \<le> currentTime s1"
    and "waitingRoom s1 \<noteq> [] \<Longrightarrow> currentTime s1 = currentTime s"
    and "\<forall>r\<in>units s1. available r \<longleftrightarrow> endTime r \<le> currentTime s"
proof -
  from run obtain s0 where
    s0: "generate_arrivals c (BASE_LAMBDA c * predictArrivalRate (currentTime s sdiv 60)) s = Some s0"
    and s1: "s1 = advance_clock c s0"
    by (rule arrive_and_advance_Some)
  have lam: "0 \<le> BASE_LAMBDA c * predictArrivalRate (currentTime s sdiv 60)"
    using wf by (intro lambda_nonneg) (simp add: well_formed_def)
  note a = generate_arrivals_loop_inv [OF wf lam inv s0]
  note b = loop_inv_advance [OF a(1) a(3)]
  show "loop_inv c g s1" unfolding s1 by (rule b(1))
  show "currentTime s \<le> currentTime s1" using b(2) a(2) unfolding s1 by simp
  show "currentTime s1 = currentTime s" if "waitingRoom s1 \<noteq> []"
    using b(3) a(2) that unfolding s1 by (simp add: advance_clock_fields)
  show "\<forall>r\<in>units s1. available r \<longleftrightarrow> endTime r \<le> currentTime s"
    using b(4) a(2) unfolding s1 by simp
qed

lemma loop_inv_tick:
  assumes "well_formed c g" "loop_inv c g s" "tick c s = Some s'"
  shows "loop_inv c g s'"
proof -
  from assms(3) obtain s1 where "arrive_and_advance c s = Some s1" "s' = assign_resources s1"
    by (auto simp: tick_def)
  then show ?thesis
    using loop_inv_arrive_and_advance(1) [OF assms(1,2)] loop_inv_assign by simp
qed

lemma reachable_loop_inv:
  assumes "well_formed c g" "reachable c g s"
  shows "loop_inv c g s"
  using assms(2)
proof (induction rule: reachable.induct)
  case reachable_init
  show ?case using assms(1) by (rule loop_inv_init)
next
  case (reachable_tick s s')
  then show ?case using loop_inv_tick [OF assms(1)] by simp
qed

section \<open>The frozen clock\<close>

lemma filter_short_ex: "length (filter P xs) < length xs \<Longrightarrow> \<exists>x\<in>set xs. \<not> P x"
  by (induction xs) (auto split: if_splits)

lemma length_filter_update_le:
  "length (filter P (xs[i := y])) \<le> Suc (length (filter P xs))"
proof (induction xs arbitrary: i)
  case Nil
  then show ?case by simp
next
  case (Cons x xs)
  show ?case
  proof (cases i)
    case 0
    then show ?thesis by simp
  next
    case (Suc k)
    then show ?thesis using Cons.IH [of k] by simp
  qed
qed

lemma length_filter_update_new:
  "i < length xs \<Longrightarrow> \<not> P (xs ! i) \<Longrightarrow> P y \<Longrightarrow>
   length (filter P (xs[i := y])) = Suc (length (filter P xs))"
proof (induction xs arbitrary: i)
  case Nil
  then show ?case by simp
next
  case (Cons x xs)
  show ?case
  proof (cases i)
    case 0
    with Cons.prems show ?thesis by simp
  next
    case (Suc k)
    with Cons.prems have "length (filter P (xs[k := y])) = Suc (length (filter P xs))"
      by (intro Cons.IH) simp_all
    with Suc show ?thesis by simp
  qed
qed

lemma stuck_init: "stuck c (init c g)"
  by (simp add: stuck_def init_def case_prod_unfold Let_def)

lemma stuck_admit: "stuck c s \<Longrightarrow> stuck c (admit_patient lam s)"
  by (simp add: stuck_def admit_patient_fields)

lemma stuck_generate_arrivals:
  assumes "generate_arrivals c lam s = Some s0" "stuck c s"
  shows "stuck c s0"
  using generate_arrivals_rule [of c lam s s0 "stuck c", OF assms] stuck_admit by simp

lemma stuck_advance:
  assumes inv: "loop_inv c g s" and st: "stuck c s"
    and fewer: "nat (NUM_DOCTORS c) < nat (NUM_BEDS c)"
    and ge: "currentTime s \<le> currentTime (advance_clock c s)"
  shows "stuck c (advance_clock c s)"
proof -
  have "length (filter (\<lambda>r. endTime r \<noteq> 0) (beds s)) \<le> length (doctors s)"
    using st length_filter_le [of "\<lambda>r. \<not> available r" "doctors s"] by (simp add: stuck_def)
  then have "length (filter (\<lambda>r. endTime r \<noteq> 0) (beds s)) < length (beds s)"
    using st fewer unfolding stuck_def by linarith
  then obtain b where b: "b \<in> set (beds s)" "endTime b = 0"
    using filter_short_ex by blast
  then have "nextEventTime c s \<le> 0"
    using nextEventTime_le(2) [of b s c] by (simp add: units_def)
  then have t: "currentTime (advance_clock c s) = 0"
    using ge st by (simp add: advance_clock_fields stuck_def)
  have "map (refresh (currentTime s)) (doctors s) = doctors s"
    using st by (intro map_idI) (auto simp: refresh_def stuck_def)
  then have d: "doctors (advance_clock c s) = doctors s"
    by (simp add: advance_clock_eq)
  have "filter (\<lambda>r. endTime r \<noteq> 0) (map (refresh (currentTime s)) (beds s))
      = map (refresh (currentTime s)) (filter (\<lambda>r. endTime r \<noteq> 0) (beds s))"
    by (simp add: filter_map comp_def)
  then have l: "length (filter (\<lambda>r. endTime r \<noteq> 0) (beds (advance_clock c s)))
      = length (filter (\<lambda>r. endTime r \<noteq> 0) (beds s))"
    by (simp add: advance_clock_eq)
  show ?thesis
    using st t d l by (simp add: stuck_def advance_clock_fields)
qed

lemma stuck_assign:
  assumes inv: "loop_inv c g s" and st: "stuck c s"
  shows "stuck c (assign_resources s)"
proof (cases "find_assignment s")
  case None
  then show ?thesis using st by (simp add: assign_resources_None)
next
  case (Some x)
  obtain t d b where x: "x = (t, d, b)" by (cases x) auto
  note f = find_assignment_Some [OF Some [unfolded x]]
  note a = assign_resources_Some [OF Some [unfolded x]]
  let ?busy = "\<lparr>available = False, endTime = t + treatmentTime (pq_top (waitingRoom s))\<rparr>"
  have "pq_top (waitingRoom s) \<in> set (waitingRoom s)" using f(1) by (rule pq_top_in)
  then have "0 < treatmentTime (pq_top (waitingRoom s))" using inv by (simp add: loop_inv_def)
  moreover have "0 \<le> t" using f(2) st by (simp add: stuck_def)
  ultimately have e: "0 < endTime ?busy" by simp
  have ds: "doctors (assign_resources s) = (doctors s)[d := ?busy]"
    and bs: "beds (assign_resources s) = (beds s)[b := ?busy]"
    by (simp_all add: a)
  have "length (filter (\<lambda>r. \<not> available r) ((doctors s)[d := ?busy]))
      = Suc (length (filter (\<lambda>r. \<not> available r) (doctors s)))"
    using f(3,4) by (intro length_filter_update_new) (simp_all add: usable_def)
  moreover have "length (filter (\<lambda>r. endTime r \<noteq> 0) ((beds s)[b := ?busy]))
      \<le> Suc (length (filter (\<lambda>r. endTime r \<noteq> 0) (beds s)))"
    by (rule length_filter_update_le)
  ultimately have l: "length (filter (\<lambda>r. endTime r \<noteq> 0) (beds (assign_resources s)))
      \<le> length (filter (\<lambda>r. \<not> available r) (doctors (assign_resources s)))"
    using st unfolding ds bs by (simp add: stuck_def)
  have p: "\<forall>r\<in>set (doctors (assign_resources s)). \<not> available r \<longrightarrow> 0 < endTime r"
    using set_update_subset_insert [of "doctors s" d ?busy] st e unfolding ds
    by (auto simp: stuck_def)
  show ?thesis
    using st l p by (simp add: stuck_def assign_resources_fields)
qed

lemma stuck_tick:
  assumes wf: "well_formed c g" and fewer: "nat (NUM_DOCTORS c) < nat (NUM_BEDS c)"
    and inv: "loop_inv c g s" and st: "stuck c s"
    and run: "arrive_and_advance c s = Some s1"
  shows "stuck c s1" and "stuck c (assign_resources s1)"
proof -
  from run obtain s0 where
    s0: "generate_arrivals c (BASE_LAMBDA c * predictArrivalRate (currentTime s sdiv 60)) s = Some s0"
    and s1: "s1 = advance_clock c s0"
    by (rule arrive_and_advance_Some)
  have lam: "0 \<le> BASE_LAMBDA c * predictArrivalRate (currentTime s sdiv 60)"
    using wf by (intro lambda_nonneg) (simp add: well_formed_def)
  note a = generate_arrivals_loop_inv [OF wf lam inv s0]
  have "stuck c s0" using s0 st by (rule stuck_generate_arrivals)
  then show "stuck c s1"
    unfolding s1 using loop_inv_advance(2) [OF a(1) a(3)] a(1) fewer
    by (intro stuck_advance) simp_all
  then show "stuck c (assign_resources s1)"
    using loop_inv_arrive_and_advance(1) [OF wf inv run] by (intro stuck_assign)
qed

lemma reachable_stuck:
  assumes wf: "well_formed c g" and fewer: "nat (NUM_DOCTORS c) < nat (NUM_BEDS c)"
    and r: "reachable c g s"
  shows "stuck c s"
  using r
proof (induction rule: reachable.induct)
  case reachable_init
  show ?case by (rule stuck_init)
next
  case (reachable_tick s s')
  from reachable_tick(3) obtain s1 where s1: "arrive_and_advance c s = Some s1"
    "s' = assign_resources s1" by (auto simp: tick_def)
  have "loop_inv c g s" using wf reachable_tick(1) by (rule reachable_loop_inv)
  then show ?case using stuck_tick(2) [OF wf fewer _ reachable_tick.IH s1(1)] s1(2) by simp
qed

lemma simulate_frozen:
  assumes wf: "well_formed c g" and pos: "0 < SIMULATION_MINUTES c"
    and fewer: "nat (NUM_DOCTORS c) < nat (NUM_BEDS c)"
  shows "loop_inv c g s \<and> stuck c s \<longrightarrow> simulate c s \<noteq> Some y"
proof
  assume a: "loop_inv c g s \<and> stuck c s"
  show "simulate c s \<noteq> Some y"
  proof
    assume ret: "simulate c s = Some y"
    have "well_formed c g \<and> 0 < SIMULATION_MINUTES c \<and>
        nat (NUM_DOCTORS c) < nat (NUM_BEDS c) \<and> loop_inv c g s \<and> stuck c s \<longrightarrow> False"
    proof (induction c s y rule: simulate.raw_induct)
      case (1 f c s y)
      show ?case
      proof
        assume h: "well_formed c g \<and> 0 < SIMULATION_MINUTES c \<and>
          nat (NUM_DOCTORS c) < nat (NUM_BEDS c) \<and> loop_inv c g s \<and> stuck c s"
        then have "running c s" by (simp add: running_def stuck_def)
        with "1.hyps" obtain s' where s': "tick c s = Some s'" "f c s' = Some y"
          by (auto split: option.splits)
        from s'(1) obtain s1 where s1: "arrive_and_advance c s = Some s1"
          "s' = assign_resources s1" by (auto simp: tick_def)
        have "loop_inv c g s'" using h s'(1) loop_inv_tick by blast
        moreover have "stuck c s'" using stuck_tick(2) [OF _ _ _ _ s1(1)] h s1(2) by blast
        ultimately show False using "1.IH" [OF s'(2)] h by blast
      qed
    qed (fact ret)
    with assms a show False by blast
  qed
qed

section \<open>The outer loop\<close>

lemma simulate_exit: "\<not> running c s \<Longrightarrow> simulate c s = Some s"
  by (subst simulate.simps) simp

lemma running_iff:
  "running c s \<longleftrightarrow> \<not> (SIMULATION_MINUTES c \<le> currentTime s \<and> waitingRoom s = [])"
  by (auto simp: running_def)

text \<open>When the outer loop returns, it returns a reachable state in which its condition fails.\<close>

lemma simulate_reachable:
  assumes ret: "simulate c s = Some s'" and r: "reachable c g s"
  shows "reachable c g s' \<and> \<not> running c s'"
proof -
  have "reachable c g s \<longrightarrow> reachable c g s' \<and> \<not> running c s'"
  proof (induction c s s' rule: simulate.raw_induct)
    case (1 f c s s')
    show ?case
    proof
      assume r: "reachable c g s"
      show "reachable c g s' \<and> \<not> running c s'"
      proof (cases "running c s")
        case True
        with "1.hyps" obtain u where u: "tick c s = Some u" "f c u = Some s'"
          by (auto split: option.splits)
        from r True u(1) have "reachable c g u" by (rule reachable_tick)
        with "1.IH" [OF u(2)] show ?thesis by simp
      next
        case False
        with "1.hyps" have "s' = s" by simp
        with False r show ?thesis by simp
      qed
    qed
  qed (fact ret)
  with r show ?thesis by simp
qed

section \<open>An example run with one doctor and one bed\<close>

lemma generate_arrivals_exit:
  "\<not> (nextArrivalTime s \<le> currentTime s \<and> nextArrivalTime s < SIMULATION_MINUTES c) \<Longrightarrow>
   generate_arrivals c lam s = Some s"
  by (subst generate_arrivals.simps) auto

lemma generate_arrivals_step:
  "nextArrivalTime s \<le> currentTime s \<and> nextArrivalTime s < SIMULATION_MINUTES c \<Longrightarrow>
   generate_arrivals c lam s = generate_arrivals c lam (admit_patient lam s)"
  by (subst generate_arrivals.simps) simp

lemma sdiv_nonneg: "0 \<le> t \<Longrightarrow> t sdiv 60 = t div (60::int)"
  by (simp add: signed_divide_int_def sgn_if)

lemma admit_patient_example:
  assumes "rng s = example_rng n"
  shows "admit_patient lam s =
     s\<lparr>rng := example_rng (n + 3),
       nextPatientId := nextPatientId s + 1,
       waitingRoom := waitingRoom s @
         [\<lparr>pid = nextPatientId s, arrivalTime = nextArrivalTime s, severity = 1,
           treatmentTime = 40, waitTime = 0, startTreatmentTime = 0\<rparr>],
       allPatients := allPatients s @
         [\<lparr>pid = nextPatientId s, arrivalTime = nextArrivalTime s, severity = 1,
           treatmentTime = 40, waitTime = 0, startTreatmentTime = 0\<rparr>],
       totalPatients := totalPatients s + 1,
       nextArrivalTime := nextArrivalTime s +
         static_cast_int (exponential_src (example_rng 0) (n + 2) / (1 / lam) * 60)\<rparr>"
  using assms
  by (simp add: admit_patient_def generateSeverity_def generateTreatmentTime_def
      generateArrivalTime_def uniform_int_distribution_def exponential_distribution_def
      example_rng_def pq_push_def Let_def)

lemma one_of_each_pair: "one_of_each = one_pair 1440"
  by (simp add: one_of_each_def one_pair_def)

lemma short_day_pair: "short_day = one_pair 45"
  by (simp add: short_day_def)

lemma init_pair:
  "init (one_pair h) (example_rng 0) =
    \<lparr>rng = example_rng 1,
     doctors = [\<lparr>available = True, endTime = 0\<rparr>], beds = [\<lparr>available = True, endTime = 0\<rparr>],
     waitingRoom = [], allPatients = [], nextPatientId = 1, currentTime = 0, nextArrivalTime = 0,
     totalWaitTime = 0, totalPatients = 0, patientsTreated = 0, doctorUtilization = 0,
     bedUtilization = 0\<rparr>"
  by (simp add: init_def generateArrivalTime_def exponential_distribution_def
      static_cast_int_def one_pair_def example_rng_def)

lemma first_arrivals:
  assumes "0 < h"
  shows "generate_arrivals (one_pair h) 10 (init (one_pair h) (example_rng 0)) =
     Some first_decision"
  unfolding init_pair
  apply (subst generate_arrivals_step)
   apply (simp add: one_pair_def assms)
  apply (subst admit_patient_example [where n = 1])
   apply simp
  apply (subst generate_arrivals_exit)
   apply (simp add: one_pair_def example_rng_def static_cast_int_def)
  apply (simp add: first_decision_def first_patient_def example_rng_def static_cast_int_def)
  done

lemma lambda_at_start: "0 \<le> t \<Longrightarrow> t < 60 \<Longrightarrow>
    BASE_LAMBDA (one_pair h) * predictArrivalRate (t sdiv 60) = 10"
  by (simp add: sdiv_nonneg one_pair_def predictArrivalRate_def)

lemma first_arrive_and_advance:
  assumes "0 < h"
  shows "arrive_and_advance (one_pair h) (init (one_pair h) (example_rng 0)) = Some first_decision"
proof -
  have "BASE_LAMBDA (one_pair h) *
      predictArrivalRate (currentTime (init (one_pair h) (example_rng 0)) sdiv 60) = 10"
    unfolding init_pair by (simp add: one_pair_def predictArrivalRate_def)
  then have "arrive_and_advance (one_pair h) (init (one_pair h) (example_rng 0))
      = Some (advance_clock (one_pair h) first_decision)"
    unfolding arrive_and_advance_def Let_def by (simp only: first_arrivals [OF assms] option.map)
  moreover have "advance_clock (one_pair h) first_decision = first_decision"
    using assms
    by (simp add: advance_clock_def first_decision_def first_patient_def pq_top_def refresh_def
        one_pair_def)
  ultimately show ?thesis by simp
qed

lemma first_assignment:
  "find_assignment first_decision = Some (0, 0, 0)"
  "assign_resources first_decision = after_first 0"
  "bookings_of first_decision =
     [\<lparr>doctor_unit = 0, bed_unit = 0, busy_from = 0, busy_until = 40\<rparr>]"
proof -
  show f: "find_assignment first_decision = Some (0, 0, 0)"
    by (simp add: find_assignment_def first_decision_def first_patient_def pq_top_def usable_def)
  show "assign_resources first_decision = after_first 0"
    unfolding assign_resources_Some [OF f]
    by (simp add: first_decision_def first_patient_def pq_top_def pq_pop_def front_slot_def
        after_first_def)
  show "bookings_of first_decision =
     [\<lparr>doctor_unit = 0, bed_unit = 0, busy_from = 0, busy_until = 40\<rparr>]"
    by (simp add: bookings_of_def f) (simp add: first_decision_def first_patient_def pq_top_def)
qed

lemma idle_tick:
  assumes "0 \<le> t" "t < 40" "40 < h"
  shows "arrive_and_advance (one_pair h) (after_first t) = Some (after_first (t + 1))"
    and "assign_resources (after_first (t + 1)) = after_first (t + 1)"
    and "bookings_of (after_first (t + 1)) = []"
    and "running (one_pair h) (after_first t)"
proof -
  have "generate_arrivals (one_pair h) 10 (after_first t) = Some (after_first t)"
    using assms by (intro generate_arrivals_exit) (simp add: after_first_def)
  moreover have "BASE_LAMBDA (one_pair h) *
      predictArrivalRate (currentTime (after_first t) sdiv 60) = 10"
    using assms by (simp add: after_first_def lambda_at_start)
  ultimately have "arrive_and_advance (one_pair h) (after_first t)
      = Some (advance_clock (one_pair h) (after_first t))"
    unfolding arrive_and_advance_def Let_def by (simp only: option.map)
  moreover have "advance_clock (one_pair h) (after_first t) = after_first (t + 1)"
    using assms by (simp add: advance_clock_def after_first_def refresh_def one_pair_def)
  ultimately show "arrive_and_advance (one_pair h) (after_first t) = Some (after_first (t + 1))"
    by simp
  have n: "find_assignment (after_first (t + 1)) = None"
    by (simp add: find_assignment_def after_first_def)
  then show "assign_resources (after_first (t + 1)) = after_first (t + 1)"
    by (rule assign_resources_None)
  show "bookings_of (after_first (t + 1)) = []"
    by (simp add: bookings_of_def n)
  show "running (one_pair h) (after_first t)"
    using assms by (simp add: running_def after_first_def one_pair_def)
qed

lemma second_arrivals:
  assumes "40 < h"
  shows "generate_arrivals (one_pair h) 10 (after_first 40) =
     Some (second_decision\<lparr>doctors := doctors (after_first 40), beds := beds (after_first 40)\<rparr>)"
  apply (subst generate_arrivals_step)
   apply (simp add: one_pair_def after_first_def assms)
  apply (subst admit_patient_example [where n = 4])
   apply (simp add: after_first_def)
  apply (subst generate_arrivals_exit)
   apply (simp add: one_pair_def example_rng_def static_cast_int_def after_first_def)
  apply (simp add: second_decision_def second_patient_def after_first_def example_rng_def
      static_cast_int_def)
  done

lemma second_arrive_and_advance_pair:
  assumes "40 < h"
  shows "arrive_and_advance (one_pair h) (after_first 40) = Some second_decision"
    and "running (one_pair h) (after_first 40)"
proof -
  have "BASE_LAMBDA (one_pair h) *
      predictArrivalRate (currentTime (after_first 40) sdiv 60) = 10"
    by (simp add: after_first_def one_pair_def predictArrivalRate_def)
  then have "arrive_and_advance (one_pair h) (after_first 40)
      = Some (advance_clock (one_pair h)
          (second_decision\<lparr>doctors := doctors (after_first 40), beds := beds (after_first 40)\<rparr>))"
    unfolding arrive_and_advance_def Let_def
    by (simp only: second_arrivals [OF assms] option.map)
  moreover have "advance_clock (one_pair h)
          (second_decision\<lparr>doctors := doctors (after_first 40), beds := beds (after_first 40)\<rparr>)
      = second_decision"
    using assms
    by (simp add: advance_clock_def second_decision_def second_patient_def after_first_def
        pq_top_def refresh_def one_pair_def)
  ultimately show "arrive_and_advance (one_pair h) (after_first 40) = Some second_decision"
    by simp
  show "running (one_pair h) (after_first 40)"
    using assms by (simp add: running_def after_first_def one_pair_def)
qed

lemma second_arrive_and_advance:
  "arrive_and_advance one_of_each (after_first 40) = Some second_decision"
  "running one_of_each (after_first 40)"
  unfolding one_of_each_pair by (rule second_arrive_and_advance_pair; simp)+

lemma second_assignment:
  "find_assignment second_decision = Some (40, 0, 0)"
  "assign_resources second_decision = after_second"
  "bookings_of second_decision =
     [\<lparr>doctor_unit = 0, bed_unit = 0, busy_from = 40, busy_until = 80\<rparr>]"
proof -
  show f: "find_assignment second_decision = Some (40, 0, 0)"
    by (simp add: find_assignment_def second_decision_def second_patient_def pq_top_def usable_def)
  show "assign_resources second_decision = after_second"
    unfolding assign_resources_Some [OF f]
    by (simp add: second_decision_def second_patient_def pq_top_def pq_pop_def front_slot_def
        after_second_def)
  show "bookings_of second_decision =
     [\<lparr>doctor_unit = 0, bed_unit = 0, busy_from = 40, busy_until = 80\<rparr>]"
    by (simp add: bookings_of_def f) (simp add: second_decision_def second_patient_def pq_top_def)
qed

text \<open>Runs with their bookings, step by step.\<close>

lemma run_log_reachable: "run_log c g s bks \<Longrightarrow> reachable c g s"
proof (induction rule: run_log.induct)
  case run_log_init
  show ?case by (rule reachable_init)
next
  case (run_log_tick s bks s1)
  then have "tick c s = Some (assign_resources s1)" by (simp add: tick_def)
  with run_log_tick.IH run_log_tick.hyps(2) show ?case by (rule reachable_tick)
qed

lemma reachable_run_log: "reachable c g s \<Longrightarrow> \<exists>bks. run_log c g s bks"
proof (induction rule: reachable.induct)
  case reachable_init
  show ?case using run_log_init by blast
next
  case (reachable_tick s s')
  then obtain bks s1 where "run_log c g s bks" "arrive_and_advance c s = Some s1"
    "s' = assign_resources s1" by (auto simp: tick_def)
  with reachable_tick(2) show ?case using run_log_tick by blast
qed

lemma idle_run_log:
  assumes "run_log (one_pair h) g (after_first 0) bks" and "n \<le> 40" and "40 < h"
  shows "run_log (one_pair h) g (after_first (int n)) bks"
  using assms(2)
proof (induction n)
  case 0
  with assms show ?case by simp
next
  case (Suc n)
  then have r: "run_log (one_pair h) g (after_first (int n)) bks"
    and b: "0 \<le> int n" "int n < 40"
    by simp_all
  note i = idle_tick [OF b assms(3)]
  from run_log_tick [OF r i(4) i(1)]
  have "run_log (one_pair h) g (after_first (int n + 1)) bks"
    unfolding i(2) i(3) by simp
  moreover have "int (Suc n) = int n + 1" by simp
  ultimately show ?case by (simp only:)
qed

lemma pair_run_log:
  assumes "40 < h"
  shows "run_log (one_pair h) (example_rng 0) (after_first 0)
     [\<lparr>doctor_unit = 0, bed_unit = 0, busy_from = 0, busy_until = 40\<rparr>]"
    and "run_log (one_pair h) (example_rng 0) (after_first 40)
     [\<lparr>doctor_unit = 0, bed_unit = 0, busy_from = 0, busy_until = 40\<rparr>]"
    and "run_log (one_pair h) (example_rng 0) after_second
     [\<lparr>doctor_unit = 0, bed_unit = 0, busy_from = 0, busy_until = 40\<rparr>,
      \<lparr>doctor_unit = 0, bed_unit = 0, busy_from = 40, busy_until = 80\<rparr>]"
proof -
  have h: "0 < h" using assms by simp
  have "running (one_pair h) (init (one_pair h) (example_rng 0))"
    unfolding running_def init_pair using h by (simp add: one_pair_def)
  from run_log_tick [OF run_log_init this first_arrive_and_advance [OF h]]
  show a: "run_log (one_pair h) (example_rng 0) (after_first 0)
     [\<lparr>doctor_unit = 0, bed_unit = 0, busy_from = 0, busy_until = 40\<rparr>]"
    by (simp add: first_assignment)
  from idle_run_log [OF a _ assms, of 40]
  show b: "run_log (one_pair h) (example_rng 0) (after_first 40)
     [\<lparr>doctor_unit = 0, bed_unit = 0, busy_from = 0, busy_until = 40\<rparr>]"
    by simp
  from run_log_tick [OF b second_arrive_and_advance_pair(2,1) [OF assms]]
  show "run_log (one_pair h) (example_rng 0) after_second
     [\<lparr>doctor_unit = 0, bed_unit = 0, busy_from = 0, busy_until = 40\<rparr>,
      \<lparr>doctor_unit = 0, bed_unit = 0, busy_from = 40, busy_until = 80\<rparr>]"
    by (simp add: second_assignment)
qed

lemma example_run_log:
  "run_log one_of_each (example_rng 0) (after_first 0)
     [\<lparr>doctor_unit = 0, bed_unit = 0, busy_from = 0, busy_until = 40\<rparr>]"
  "run_log one_of_each (example_rng 0) (after_first 40)
     [\<lparr>doctor_unit = 0, bed_unit = 0, busy_from = 0, busy_until = 40\<rparr>]"
  "run_log one_of_each (example_rng 0) after_second
     [\<lparr>doctor_unit = 0, bed_unit = 0, busy_from = 0, busy_until = 40\<rparr>,
      \<lparr>doctor_unit = 0, bed_unit = 0, busy_from = 40, busy_until = 80\<rparr>]"
  unfolding one_of_each_pair by (rule pair_run_log; simp)+

text \<open>
  With the horizon 45 the run goes on after the second booking: the clock is stepped from
  40 to 45 while nobody arrives or waits, and at minute 45 the loop returns.
\<close>

lemma wind_tick:
  assumes "40 \<le> t" "t < 45"
  shows "tick short_day (winding_down t) = Some (winding_down (t + 1))"
    and "running short_day (winding_down t)"
proof -
  have "generate_arrivals short_day lam (winding_down t) = Some (winding_down t)" for lam
    using assms by (intro generate_arrivals_exit) (simp add: winding_down_def after_second_def)
  then have "arrive_and_advance short_day (winding_down t)
      = Some (advance_clock short_day (winding_down t))"
    unfolding arrive_and_advance_def Let_def by (simp only: option.map)
  moreover have "advance_clock short_day (winding_down t) = winding_down (t + 1)"
    using assms
    by (simp add: advance_clock_def winding_down_def after_second_def refresh_def short_day_def
        one_pair_def)
  moreover have "find_assignment (winding_down (t + 1)) = None"
    by (simp add: find_assignment_def winding_down_def after_second_def)
  then have "assign_resources (winding_down (t + 1)) = winding_down (t + 1)"
    by (rule assign_resources_None)
  ultimately show "tick short_day (winding_down t) = Some (winding_down (t + 1))"
    by (simp add: tick_def)
  show "running short_day (winding_down t)"
    using assms by (simp add: running_def winding_down_def after_second_def short_day_def one_pair_def)
qed

lemma simulate_step: "running c s \<Longrightarrow> tick c s = Some s' \<Longrightarrow> simulate c s = simulate c s'"
  by (subst simulate.simps) simp

lemma simulate_after_first:
  assumes "t = 40 - int n" "n \<le> 40"
  shows "simulate short_day (after_first t) = simulate short_day (after_first 40)"
  using assms
proof (induction n arbitrary: t)
  case 0
  then show ?case by simp
next
  case (Suc n)
  then have b: "0 \<le> t" "t < 40" by simp_all
  have h: "(40::int) < 45" by simp
  note i = idle_tick [OF b h, folded short_day_pair]
  have "tick short_day (after_first t) = Some (after_first (t + 1))"
    unfolding tick_def by (simp only: i(1) i(2) option.map)
  with i(4) have "simulate short_day (after_first t) = simulate short_day (after_first (t + 1))"
    by (rule simulate_step)
  moreover have "simulate short_day (after_first (t + 1)) = simulate short_day (after_first 40)"
    using Suc.prems by (intro Suc.IH) simp_all
  ultimately show ?case by simp
qed

lemma simulate_winding_down:
  assumes "t = 45 - int n" "n \<le> 5"
  shows "simulate short_day (winding_down t) = Some (winding_down 45)"
  using assms
proof (induction n arbitrary: t)
  case 0
  have "\<not> running short_day (winding_down 45)"
    by (simp add: running_def winding_down_def after_second_def short_day_def one_pair_def)
  with 0 show ?case by (simp add: simulate_exit)
next
  case (Suc n)
  then have b: "40 \<le> t" "t < 45" by simp_all
  note w = wind_tick [OF b]
  from w(2) w(1) have "simulate short_day (winding_down t)
      = simulate short_day (winding_down (t + 1))"
    by (rule simulate_step)
  moreover have "simulate short_day (winding_down (t + 1)) = Some (winding_down 45)"
    using Suc.prems by (intro Suc.IH) simp_all
  ultimately show ?case by simp
qed

lemma short_day_run:
  "simulate short_day (init short_day (example_rng 0)) = Some (winding_down 45)"
proof -
  have h: "(0::int) < 45" "(40::int) < 45" by simp_all
  have "running short_day (init short_day (example_rng 0))"
    unfolding short_day_pair running_def init_pair by (simp add: one_pair_def)
  moreover have "tick short_day (init short_day (example_rng 0)) = Some (after_first 0)"
    unfolding short_day_pair
    by (simp add: tick_def first_arrive_and_advance [OF h(1)] first_assignment(2))
  ultimately have "simulate short_day (init short_day (example_rng 0))
      = simulate short_day (after_first 0)"
    by (rule simulate_step)
  also have "\<dots> = simulate short_day (after_first 40)"
    by (rule simulate_after_first [of 0 40]) simp_all
  also have "\<dots> = simulate short_day after_second"
  proof (rule simulate_step)
    show "running short_day (after_first 40)"
      unfolding short_day_pair by (rule second_arrive_and_advance_pair(2) [OF h(2)])
    show "tick short_day (after_first 40) = Some after_second"
      unfolding short_day_pair
      by (simp add: tick_def second_arrive_and_advance_pair(1) [OF h(2)] second_assignment(2))
  qed
  also have "after_second = winding_down 40"
    by (simp add: winding_down_def after_second_def)
  also have "simulate short_day (winding_down 40) = Some (winding_down 45)"
    by (rule simulate_winding_down [of 40 5]) simp_all
  finally show ?thesis .
qed

section \<open>The bookings of a run\<close>

lemma log_inv_init: "log_inv (init c g) []"
  by (simp add: log_inv_def sequential_def init_def case_prod_unfold Let_def)

lemma log_inv_generate_arrivals:
  assumes run: "generate_arrivals c lam s = Some s0" and inv: "log_inv s bks"
  shows "log_inv s0 bks"
proof -
  let ?I = "\<lambda>u::sim. doctors u = doctors s \<and> beds u = beds s \<and> (\<forall>p\<in>set (waitingRoom u). 0 < treatmentTime p)"
  have "?I s0 \<and> \<not> (nextArrivalTime s0 \<le> currentTime s0 \<and> nextArrivalTime s0 < SIMULATION_MINUTES c)"
    using run
  proof (rule generate_arrivals_rule)
    show "?I s" using inv by (simp add: log_inv_def)
  next
    fix u
    assume "?I u"
    moreover have "0 < treatmentTime (new_patient u)" using new_patient_fields(2) [of u] by simp
    ultimately show "?I (admit_patient lam u)" by (simp add: admit_patient_fields)
  qed
  then show ?thesis using inv by (simp add: log_inv_def)
qed

lemma log_inv_advance:
  assumes "log_inv s bks"
  shows "log_inv (advance_clock c s) bks"
proof -
  have "endTime (doctors (advance_clock c s) ! i) = endTime (doctors s ! i)" if "i < length (doctors s)" for i
    using that by (simp add: advance_clock_eq)
  moreover have "endTime (beds (advance_clock c s) ! i) = endTime (beds s ! i)" if "i < length (beds s)" for i
    using that by (simp add: advance_clock_eq)
  ultimately show ?thesis
    using assms by (simp add: log_inv_def advance_clock_fields)
qed

lemma sequential_snoc:
  assumes "sequential bks"
    and "\<forall>e\<in>set bks. (doctor_unit e = doctor_unit x \<longrightarrow> busy_until e \<le> busy_from x) \<and>
           (bed_unit e = bed_unit x \<longrightarrow> busy_until e \<le> busy_from x)"
  shows "sequential (bks @ [x])"
  unfolding sequential_def
proof (intro allI impI)
  fix i j
  assume i: "i < length (bks @ [x])" and j: "j < length (bks @ [x])" and ij: "i < j"
  then have il: "i < length bks" by simp
  show "(doctor_unit ((bks @ [x]) ! i) = doctor_unit ((bks @ [x]) ! j) \<longrightarrow>
          busy_until ((bks @ [x]) ! i) \<le> busy_from ((bks @ [x]) ! j)) \<and>
        (bed_unit ((bks @ [x]) ! i) = bed_unit ((bks @ [x]) ! j) \<longrightarrow>
          busy_until ((bks @ [x]) ! i) \<le> busy_from ((bks @ [x]) ! j))"
  proof (cases "j < length bks")
    case True
    with assms(1) il ij show ?thesis by (simp add: sequential_def nth_append)
  next
    case False
    with j have "j = length bks" by simp
    moreover have "bks ! i \<in> set bks" using il by simp
    ultimately show ?thesis using assms(2) il by (simp add: nth_append)
  qed
qed

lemma log_inv_decision:
  assumes inv: "log_inv s bks" and f: "find_assignment s = Some (t, d, b)"
  shows "usable t (doctors s ! d)" "usable t (beds s ! b)"
    "\<forall>e\<in>set bks. (doctor_unit e = d \<longrightarrow> busy_until e \<le> t) \<and> (bed_unit e = b \<longrightarrow> busy_until e \<le> t)"
    "0 < treatmentTime (pq_top (waitingRoom s))"
proof -
  note a = find_assignment_Some [OF f]
  show "usable t (doctors s ! d)" "usable t (beds s ! b)" by (rule a)+
  show "\<forall>e\<in>set bks. (doctor_unit e = d \<longrightarrow> busy_until e \<le> t) \<and> (bed_unit e = b \<longrightarrow> busy_until e \<le> t)"
  proof
    fix e
    assume "e \<in> set bks"
    then have "busy_until e \<le> endTime (doctors s ! doctor_unit e)"
      "busy_until e \<le> endTime (beds s ! bed_unit e)"
      using inv by (simp_all add: log_inv_def)
    then show "(doctor_unit e = d \<longrightarrow> busy_until e \<le> t) \<and> (bed_unit e = b \<longrightarrow> busy_until e \<le> t)"
      using a(4,6) by (auto simp: usable_def)
  qed
  have "pq_top (waitingRoom s) \<in> set (waitingRoom s)" using a(1) by (rule pq_top_in)
  then show "0 < treatmentTime (pq_top (waitingRoom s))" using inv by (simp add: log_inv_def)
qed

lemma log_inv_assign:
  assumes inv: "log_inv s bks"
  shows "log_inv (assign_resources s) (bks @ bookings_of s)"
proof (cases "find_assignment s")
  case None
  then show ?thesis using inv by (simp add: assign_resources_None bookings_of_def)
next
  case (Some x)
  obtain t d b where x: "x = (t, d, b)" by (cases x) auto
  note f = Some [unfolded x]
  note a = find_assignment_Some [OF f]
  note dec = log_inv_decision [OF inv f]
  let ?u = "t + treatmentTime (pq_top (waitingRoom s))"
  let ?busy = "\<lparr>available = False, endTime = ?u\<rparr>"
  let ?x = "\<lparr>doctor_unit = d, bed_unit = b, busy_from = t, busy_until = ?u\<rparr>"
  have bk: "bookings_of s = [?x]" by (simp add: bookings_of_def f)
  have ds: "doctors (assign_resources s) = (doctors s)[d := ?busy]"
    and bs: "beds (assign_resources s) = (beds s)[b := ?busy]"
    by (simp_all add: assign_resources_Some [OF f])
  have tu: "t \<le> ?u" using dec(4) by simp
  have q: "\<forall>p\<in>set (waitingRoom (assign_resources s)). 0 < treatmentTime p"
    using assign_resources_fields(7) [of s] inv by (auto simp: log_inv_def)
  have seq: "sequential (bks @ [?x])"
    using inv dec(3) by (intro sequential_snoc) (simp_all add: log_inv_def)
  have old: "doctor_unit e < length (doctors s) \<and>
        busy_until e \<le> endTime ((doctors s)[d := ?busy] ! doctor_unit e) \<and>
        bed_unit e < length (beds s) \<and>
        busy_until e \<le> endTime ((beds s)[b := ?busy] ! bed_unit e)" if "e \<in> set bks" for e
  proof -
    from that inv have e: "doctor_unit e < length (doctors s)"
      "busy_until e \<le> endTime (doctors s ! doctor_unit e)"
      "bed_unit e < length (beds s)" "busy_until e \<le> endTime (beds s ! bed_unit e)"
      by (simp_all add: log_inv_def)
    have "busy_until e \<le> endTime ((doctors s)[d := ?busy] ! doctor_unit e)"
    proof (cases "doctor_unit e = d")
      case True
      then have "busy_until e \<le> t" using dec(3) that by simp
      with tu True e(1) show ?thesis by simp
    next
      case False
      with e(2) show ?thesis by simp
    qed
    moreover have "busy_until e \<le> endTime ((beds s)[b := ?busy] ! bed_unit e)"
    proof (cases "bed_unit e = b")
      case True
      then have "busy_until e \<le> t" using dec(3) that by simp
      with tu True e(3) show ?thesis by simp
    next
      case False
      with e(4) show ?thesis by simp
    qed
    ultimately show ?thesis using e(1,3) by simp
  qed
  have new: "d < length (doctors s) \<and> ?u \<le> endTime ((doctors s)[d := ?busy] ! d) \<and>
      b < length (beds s) \<and> ?u \<le> endTime ((beds s)[b := ?busy] ! b)"
    using a(3,5) by simp
  show ?thesis
    unfolding log_inv_def bk ds bs using q seq old new by auto
qed

lemma run_log_inv: "run_log c g s bks \<Longrightarrow> log_inv s bks"
proof (induction rule: run_log.induct)
  case run_log_init
  show ?case by (rule log_inv_init)
next
  case (run_log_tick s bks s1)
  from run_log_tick(3) obtain s0 where
    s0: "generate_arrivals c (BASE_LAMBDA c * predictArrivalRate (currentTime s sdiv 60)) s = Some s0"
    and s1: "s1 = advance_clock c s0"
    by (rule arrive_and_advance_Some)
  have "log_inv s0 bks" using s0 run_log_tick.IH by (rule log_inv_generate_arrivals)
  then have "log_inv s1 bks" unfolding s1 by (rule log_inv_advance)
  then show ?case by (rule log_inv_assign)
qed

lemma log_inv_arrive_and_advance:
  assumes "log_inv s bks" "arrive_and_advance c s = Some s1"
  shows "log_inv s1 bks"
proof -
  from assms(2) obtain s0 where
    s0: "generate_arrivals c (BASE_LAMBDA c * predictArrivalRate (currentTime s sdiv 60)) s = Some s0"
    and s1: "s1 = advance_clock c s0"
    by (rule arrive_and_advance_Some)
  have "log_inv s0 bks" using s0 assms(1) by (rule log_inv_generate_arrivals)
  then show ?thesis unfolding s1 by (rule log_inv_advance)
qed

lemma log_inv_bookings:
  assumes "run_log c g s bks"
  shows "\<forall>e\<in>set bks. busy_from e < busy_until e"
  using assms
proof (induction rule: run_log.induct)
  case run_log_init
  show ?case by simp
next
  case (run_log_tick s bks s1)
  have inv: "log_inv s1 bks"
    using run_log_inv [OF run_log_tick(1)] run_log_tick(3) by (rule log_inv_arrive_and_advance)
  show ?case
  proof (cases "find_assignment s1")
    case None
    then show ?thesis using run_log_tick.IH by (simp add: bookings_of_def)
  next
    case (Some x)
    obtain t d b where x: "x = (t, d, b)" by (cases x) auto
    from log_inv_decision(4) [OF inv Some [unfolded x]] run_log_tick.IH
    show ?thesis by (simp add: bookings_of_def Some x)
  qed
qed

section \<open>The run as a whole\<close>

lemma well_formed_example:
  "well_formed configured (example_rng 0)" "well_formed one_of_each (example_rng 0)"
  by (simp_all add: well_formed_def configured_def one_of_each_def example_rng_def)

text \<open>
  C1.  The loop runs exactly until the clock has reached the horizon and nobody waits, and
  from a state in which this is so it returns at once.  But when there are fewer doctors
  than beds, as in the configuration of the source, and the horizon is positive, the loop
  does not return: in every state at the head of the loop the clock shows 0 and the
  condition of the loop holds, because a bed that was never acquired keeps the next event
  time at 0.
\<close>

theorem simulation_never_returns:
  assumes "well_formed c g" "0 < SIMULATION_MINUTES c" "nat (NUM_DOCTORS c) < nat (NUM_BEDS c)"
  shows "simulate c (init c g) = None \<and> main c g = None \<and>
         (\<forall>s. reachable c g s \<longrightarrow> currentTime s = 0 \<and> running c s) \<and>
         (\<forall>s. running c s \<longleftrightarrow> \<not> (SIMULATION_MINUTES c \<le> currentTime s \<and> waitingRoom s = [])) \<and>
         (\<forall>s. \<not> running c s \<longrightarrow> simulate c s = Some s)"
proof -
  have "loop_inv c g (init c g) \<and> stuck c (init c g)"
    using assms(1) by (simp add: loop_inv_init stuck_init)
  then have "simulate c (init c g) \<noteq> Some y" for y
    using simulate_frozen [OF assms] by blast
  then have n: "simulate c (init c g) = None" by (cases "simulate c (init c g)") auto
  have "currentTime s = 0 \<and> running c s" if "reachable c g s" for s
    using reachable_stuck [OF assms(1,3) that] assms(2) by (simp add: stuck_def running_def)
  with n show ?thesis by (simp add: main_def simulate_exit running_iff)
qed

theorem simulation_never_returns_witness:
  "well_formed configured (example_rng 0) \<and> 0 < SIMULATION_MINUTES configured \<and>
   nat (NUM_DOCTORS configured) < nat (NUM_BEDS configured) \<and>
   simulate configured (init configured (example_rng 0)) = None \<and>
   main configured (example_rng 0) = None"
proof -
  have a: "0 < SIMULATION_MINUTES configured"
    and b: "nat (NUM_DOCTORS configured) < nat (NUM_BEDS configured)"
    by (simp_all add: configured_def)
  show ?thesis
    using simulation_never_returns [OF well_formed_example(1) a b] well_formed_example(1) a b
    by simp
qed

text \<open>
  C2.  In every state at the head of the loop of a run on well-formed inputs the clock is
  not after the \<open>endTime\<close> of any doctor or bed; so while some unit still has \<open>endTime\<close> 0
  the clock shows 0.  The clock step is the minimum of the clock plus one and the next
  event time, which is at most the \<open>endTime\<close> of every unit; after the step the clock is
  not before its old value and still not after any \<open>endTime\<close>, and the allocation step
  leaves it as it is, so it never decreases.
\<close>

theorem clock_bounded_by_units:
  assumes "well_formed c g" "reachable c g s"
  shows "(\<forall>r\<in>units s. currentTime s \<le> endTime r) \<and>
         ((\<exists>r\<in>units s. endTime r = 0) \<longrightarrow> currentTime s = 0) \<and>
         currentTime (advance_clock c s) = min (currentTime s + 1) (nextEventTime c s) \<and>
         (\<forall>r\<in>units s. nextEventTime c s \<le> endTime r) \<and>
         (\<forall>s1. arrive_and_advance c s = Some s1 \<longrightarrow>
            currentTime s \<le> currentTime s1 \<and> (\<forall>r\<in>units s1. currentTime s1 \<le> endTime r)) \<and>
         (\<forall>s'. tick c s = Some s' \<longrightarrow> currentTime s \<le> currentTime s')"
proof -
  have inv: "loop_inv c g s" using assms by (rule reachable_loop_inv)
  then have u: "\<forall>r\<in>units s. currentTime s \<le> endTime r" and z: "0 \<le> currentTime s"
    by (simp_all add: loop_inv_def)
  have e: "(\<exists>r\<in>units s. endTime r = 0) \<longrightarrow> currentTime s = 0"
    using u z by force
  have m: "currentTime s \<le> currentTime s1 \<and> (\<forall>r\<in>units s1. currentTime s1 \<le> endTime r)"
    if "arrive_and_advance c s = Some s1" for s1
    using loop_inv_arrive_and_advance(1,2) [OF assms(1) inv that] by (simp add: loop_inv_def)
  have t: "currentTime s \<le> currentTime s'" if "tick c s = Some s'" for s'
  proof -
    from that obtain s1 where "arrive_and_advance c s = Some s1" "s' = assign_resources s1"
      by (auto simp: tick_def)
    with m show ?thesis by (simp add: assign_resources_fields)
  qed
  show ?thesis
    using u e m t nextEventTime_le(2) [of _ s c] by (simp add: advance_clock_fields)
qed

theorem clock_bounded_by_units_witness:
  "well_formed one_of_each (example_rng 0) \<and> reachable one_of_each (example_rng 0) after_second \<and>
   units after_second = {\<lparr>available = False, endTime = 80\<rparr>} \<and> currentTime after_second = 40"
  using clock_bounded_by_units [OF well_formed_example(2) run_log_reachable [OF example_run_log(3)]]
    well_formed_example(2) run_log_reachable [OF example_run_log(3)]
  by (simp add: after_second_def units_def)

text \<open>The tick of the example run that begins at minute 39.\<close>

lemma reachable_39: "reachable one_of_each (example_rng 0) (after_first 39)"
proof -
  have "run_log one_of_each (example_rng 0) (after_first (int 39))
     [\<lparr>doctor_unit = 0, bed_unit = 0, busy_from = 0, busy_until = 40\<rparr>]"
    unfolding one_of_each_pair by (rule idle_run_log [OF pair_run_log(1)]) simp_all
  then have "run_log one_of_each (example_rng 0) (after_first 39)
     [\<lparr>doctor_unit = 0, bed_unit = 0, busy_from = 0, busy_until = 40\<rparr>]"
    by simp
  then show ?thesis
    by (rule run_log_reachable)
qed

lemma tick_39: "arrive_and_advance one_of_each (after_first 39) = Some (after_first 40)"
  unfolding one_of_each_pair using idle_tick(1) [of 39 1440] by simp

lemma running_39: "running one_of_each (after_first 39)"
  unfolding one_of_each_pair using idle_tick(4) [of 39 1440] by simp

text \<open>
  C4, as the source has it.  The pools are refreshed before the clock is stepped.  So in
  every tick of a run on well-formed inputs, in the state in which the allocation step
  decides, every doctor and every bed is marked available exactly when its \<open>endTime\<close> is
  not after the time with which the tick began.  The allocation step finds units only when
  a patient is waiting, and then the clock step has left the time as it was, so that the
  marks also agree with the current time.
\<close>

theorem availability_refreshed_before_step:
  assumes "well_formed c g" "reachable c g s" "arrive_and_advance c s = Some s1"
  shows "(\<forall>r\<in>units s1. available r \<longleftrightarrow> endTime r \<le> currentTime s) \<and>
         currentTime s \<le> currentTime s1 \<and>
         (waitingRoom s1 \<noteq> [] \<longrightarrow>
            currentTime s1 = currentTime s \<and>
            (\<forall>r\<in>units s1. available r \<longleftrightarrow> endTime r \<le> currentTime s1)) \<and>
         (find_assignment s1 \<noteq> None \<longrightarrow> waitingRoom s1 \<noteq> [])"
proof -
  have inv: "loop_inv c g s" using assms(1,2) by (rule reachable_loop_inv)
  note a = loop_inv_arrive_and_advance [OF assms(1) inv assms(3)]
  have "find_assignment s1 \<noteq> None \<longrightarrow> waitingRoom s1 \<noteq> []"
    by (simp add: find_assignment_def)
  moreover have "currentTime s1 = currentTime s \<and>
      (\<forall>r\<in>units s1. available r \<longleftrightarrow> endTime r \<le> currentTime s1)"
    if "waitingRoom s1 \<noteq> []"
    using a(3) [OF that] a(4) by simp
  ultimately show ?thesis using a(2) a(4) by blast
qed

theorem availability_refreshed_before_step_witness:
  "well_formed one_of_each (example_rng 0) \<and>
   reachable one_of_each (example_rng 0) (after_first 39) \<and>
   arrive_and_advance one_of_each (after_first 39) = Some (after_first 40) \<and>
   units (after_first 40) = {\<lparr>available = False, endTime = 40\<rparr>} \<and>
   (available \<lparr>available = False, endTime = 40\<rparr> \<longleftrightarrow>
      endTime \<lparr>available = False, endTime = 40\<rparr> \<le> currentTime (after_first 39)) \<and>
   reachable one_of_each (example_rng 0) (after_first 40) \<and>
   arrive_and_advance one_of_each (after_first 40) = Some second_decision \<and>
   waitingRoom second_decision \<noteq> [] \<and>
   units second_decision = {\<lparr>available = True, endTime = 40\<rparr>} \<and>
   currentTime second_decision = currentTime (after_first 40) \<and>
   (available \<lparr>available = True, endTime = 40\<rparr> \<longleftrightarrow>
      endTime \<lparr>available = True, endTime = 40\<rparr> \<le> currentTime second_decision)"
proof -
  note wf = well_formed_example(2)
  note r40 = run_log_reachable [OF example_run_log(2)]
  note s40 = second_arrive_and_advance(1)
  note t39 = availability_refreshed_before_step [OF wf reachable_39 tick_39]
  note t40 = availability_refreshed_before_step [OF wf r40 s40]
  have u39: "units (after_first 40) = {\<lparr>available = False, endTime = 40\<rparr>}"
    by (simp add: after_first_def units_def)
  have u40: "units second_decision = {\<lparr>available = True, endTime = 40\<rparr>}"
    by (simp add: second_decision_def units_def)
  have q: "waitingRoom second_decision \<noteq> []" by (simp add: second_decision_def)
  from t39 have "\<forall>r\<in>units (after_first 40).
      available r \<longleftrightarrow> endTime r \<le> currentTime (after_first 39)"
    by (rule conjunct1)
  then have a39: "available \<lparr>available = False, endTime = 40\<rparr> \<longleftrightarrow>
      endTime \<lparr>available = False, endTime = 40\<rparr> \<le> currentTime (after_first 39)"
    unfolding u39 by blast
  from t40 q have c40: "currentTime second_decision = currentTime (after_first 40)"
    and "\<forall>r\<in>units second_decision. available r \<longleftrightarrow> endTime r \<le> currentTime second_decision"
    by blast+
  then have a40: "available \<lparr>available = True, endTime = 40\<rparr> \<longleftrightarrow>
      endTime \<lparr>available = True, endTime = 40\<rparr> \<le> currentTime second_decision"
    unfolding u40 by blast
  show ?thesis
    using wf reachable_39 tick_39 u39 a39 r40 s40 q u40 c40 a40 by (intro conjI)
qed

text \<open>
  C4 as it was stated fails in a tick in which nobody waits and the clock is stepped to
  the \<open>endTime\<close> of a unit.  In the run of one doctor and one bed from the example
  generator the tick that begins at minute 39 steps the clock to minute 40; in the state
  in which the allocation step then decides, the doctor and the bed have the \<open>endTime\<close>
  40, which is not after the current time 40, and both are still marked unavailable.
\<close>

theorem availability_at_decision_counterexample:
  "well_formed one_of_each (example_rng 0) \<and>
   reachable one_of_each (example_rng 0) (after_first 39) \<and>
   running one_of_each (after_first 39) \<and>
   arrive_and_advance one_of_each (after_first 39) = Some (after_first 40) \<and>
   currentTime (after_first 40) = 40 \<and>
   doctors (after_first 40) = [\<lparr>available = False, endTime = 40\<rparr>] \<and>
   beds (after_first 40) = [\<lparr>available = False, endTime = 40\<rparr>] \<and>
   \<lparr>available = False, endTime = 40\<rparr> \<in> units (after_first 40) \<and>
   \<not> (available \<lparr>available = False, endTime = 40\<rparr> \<longleftrightarrow>
        endTime \<lparr>available = False, endTime = 40\<rparr> \<le> currentTime (after_first 40))"
proof -
  have "currentTime (after_first 40) = 40"
    "doctors (after_first 40) = [\<lparr>available = False, endTime = 40\<rparr>]"
    "beds (after_first 40) = [\<lparr>available = False, endTime = 40\<rparr>]"
    "\<lparr>available = False, endTime = 40\<rparr> \<in> units (after_first 40)"
    "\<not> (available \<lparr>available = False, endTime = 40\<rparr> \<longleftrightarrow>
        endTime \<lparr>available = False, endTime = 40\<rparr> \<le> currentTime (after_first 40))"
    by (simp_all add: after_first_def units_def)
  with well_formed_example(2) reachable_39 running_39 tick_39 show ?thesis by (intro conjI)
qed

text \<open>
  The records of the registry are copies made at arrival; no step of the loop writes to
  them.
\<close>

lemma allPatients_generate_arrivals:
  assumes "generate_arrivals c lam s = Some s0"
    and "\<forall>p\<in>set (allPatients s). waitTime p = 0 \<and> startTreatmentTime p = 0"
  shows "\<forall>p\<in>set (allPatients s0). waitTime p = 0 \<and> startTreatmentTime p = 0"
proof -
  let ?I = "\<lambda>u::sim. \<forall>p\<in>set (allPatients u). waitTime p = 0 \<and> startTreatmentTime p = 0"
  have "?I s0 \<and> \<not> (nextArrivalTime s0 \<le> currentTime s0 \<and> nextArrivalTime s0 < SIMULATION_MINUTES c)"
    using assms(1)
  proof (rule generate_arrivals_rule)
    show "?I s" by (rule assms(2))
  next
    fix u
    assume "?I u"
    then show "?I (admit_patient lam u)" by (simp add: admit_patient_fields new_patient_fields)
  qed
  then show ?thesis by simp
qed

lemma registry_never_written:
  assumes "reachable c g s"
  shows "\<forall>p\<in>set (allPatients s). waitTime p = 0 \<and> startTreatmentTime p = 0"
  using assms
proof (induction rule: reachable.induct)
  case reachable_init
  show ?case by (simp add: init_def case_prod_unfold Let_def)
next
  case (reachable_tick s s')
  from reachable_tick(3) obtain s1 where s1: "arrive_and_advance c s = Some s1"
    "s' = assign_resources s1" by (auto simp: tick_def)
  from s1(1) obtain s0 where
    s0: "generate_arrivals c (BASE_LAMBDA c * predictArrivalRate (currentTime s sdiv 60)) s = Some s0"
    "s1 = advance_clock c s0"
    by (rule arrive_and_advance_Some)
  from allPatients_generate_arrivals [OF s0(1) reachable_tick.IH]
  show ?case by (simp add: s1(2) s0(2) assign_resources_fields advance_clock_fields)
qed

lemma registry_at_run_end:
  assumes "simulate c (init c g) = Some s"
  shows "\<forall>p\<in>set (allPatients s). waitTime p = 0 \<and> startTreatmentTime p = 0"
  using simulate_reachable [OF assms reachable_init] registry_never_written [of c g s] by simp

text \<open>
  C5.  The allocation step writes the waiting time and the start of treatment to the copy
  of the patient in the queue, which it then pops; the copy in the registry is not
  written.  The run of one doctor and one bed over 45 minutes from the example generator
  returns, at minute 45.  Its second patient arrives at minute 40 and is assigned at minute
  40.  At the end of the run two patients are treated and nobody waits, and the record of
  the second patient in the registry still has the start of treatment 0 and not 40, so
  that its waiting time 0 is not its start of treatment minus its arrival time, which is
  negative.
\<close>

theorem registry_record_not_updated:
  "simulate short_day (init short_day (example_rng 0)) = Some (winding_down 45) \<and>
   reachable short_day (example_rng 0) (after_first 40) \<and>
   arrive_and_advance short_day (after_first 40) = Some second_decision \<and>
   pq_top (waitingRoom second_decision) = second_patient \<and>
   find_assignment second_decision = Some (40, 0, 0) \<and>
   patientsTreated (winding_down 45) = 2 \<and> waitingRoom (winding_down 45) = [] \<and>
   allPatients (winding_down 45) = [first_patient, second_patient] \<and>
   arrivalTime second_patient = 40 \<and> startTreatmentTime second_patient = 0 \<and>
   waitTime second_patient = 0 \<and>
   waitTime second_patient \<noteq> startTreatmentTime second_patient - arrivalTime second_patient"
proof -
  have h: "(40::int) < 45" by simp
  have "reachable short_day (example_rng 0) (after_first 40)"
    unfolding short_day_pair by (rule run_log_reachable [OF pair_run_log(2) [OF h]])
  moreover have "arrive_and_advance short_day (after_first 40) = Some second_decision"
    unfolding short_day_pair by (rule second_arrive_and_advance_pair(1) [OF h])
  moreover have "pq_top (waitingRoom second_decision) = second_patient"
    by (simp add: second_decision_def pq_top_def)
  ultimately show ?thesis
    using short_day_run second_assignment(1)
    by (simp add: winding_down_def after_second_def second_patient_def)
qed

text \<open>
  C6.  The bookings of a run are sequential: a later booking of a doctor or of a bed starts
  no earlier than every earlier booking of the same unit ends.  So the intervals from the
  time of the assignment to that time plus the treatment time that one unit is given do
  not overlap.  Every booking is of positive length, and the units that the allocation
  step acquires are marked available and have an \<open>endTime\<close> that is not after the time of
  the assignment, which is not before the end of any earlier booking of these units.
\<close>

theorem no_double_booking:
  assumes "run_log c g s bks"
  shows "sequential bks \<and>
         (\<forall>i<length bks. \<forall>j<length bks. i \<noteq> j \<longrightarrow>
            doctor_unit (bks ! i) = doctor_unit (bks ! j) \<or> bed_unit (bks ! i) = bed_unit (bks ! j) \<longrightarrow>
            {busy_from (bks ! i)..<busy_until (bks ! i)} \<inter>
            {busy_from (bks ! j)..<busy_until (bks ! j)} = {}) \<and>
         (\<forall>e\<in>set bks. busy_from e < busy_until e) \<and>
         (\<forall>s1 t d b. arrive_and_advance c s = Some s1 \<longrightarrow> find_assignment s1 = Some (t, d, b) \<longrightarrow>
            usable t (doctors s1 ! d) \<and> usable t (beds s1 ! b) \<and>
            (\<forall>e\<in>set bks. (doctor_unit e = d \<longrightarrow> busy_until e \<le> t) \<and>
                          (bed_unit e = b \<longrightarrow> busy_until e \<le> t)))"
proof -
  have inv: "log_inv s bks" using assms by (rule run_log_inv)
  then have seq: "sequential bks" by (simp add: log_inv_def)
  have dis: "{busy_from (bks ! i)..<busy_until (bks ! i)} \<inter>
            {busy_from (bks ! j)..<busy_until (bks ! j)} = {}"
    if "i < length bks" "j < length bks" "i \<noteq> j"
      "doctor_unit (bks ! i) = doctor_unit (bks ! j) \<or> bed_unit (bks ! i) = bed_unit (bks ! j)"
    for i j
  proof (cases "i < j")
    case True
    with seq that have "busy_until (bks ! i) \<le> busy_from (bks ! j)"
      unfolding sequential_def by blast
    then show ?thesis by auto
  next
    case False
    with that(3) have "j < i" by simp
    with seq that have "busy_until (bks ! j) \<le> busy_from (bks ! i)"
      unfolding sequential_def by metis
    then show ?thesis by auto
  qed
  have dec: "usable t (doctors s1 ! d) \<and> usable t (beds s1 ! b) \<and>
            (\<forall>e\<in>set bks. (doctor_unit e = d \<longrightarrow> busy_until e \<le> t) \<and>
                          (bed_unit e = b \<longrightarrow> busy_until e \<le> t))"
    if "arrive_and_advance c s = Some s1" "find_assignment s1 = Some (t, d, b)" for s1 t d b
    using log_inv_decision(1,2,3) [OF log_inv_arrive_and_advance [OF inv that(1)] that(2)]
    by simp
  show ?thesis
    using seq dis dec log_inv_bookings [OF assms] by blast
qed

theorem no_double_booking_witness:
  "run_log one_of_each (example_rng 0) after_second
     [\<lparr>doctor_unit = 0, bed_unit = 0, busy_from = 0, busy_until = 40\<rparr>,
      \<lparr>doctor_unit = 0, bed_unit = 0, busy_from = 40, busy_until = 80\<rparr>] \<and>
   sequential
     [\<lparr>doctor_unit = 0, bed_unit = 0, busy_from = 0, busy_until = 40\<rparr>,
      \<lparr>doctor_unit = 0, bed_unit = 0, busy_from = 40, busy_until = 80\<rparr>]"
  using no_double_booking [OF example_run_log(3)] example_run_log(3)
  by simp

section \<open>The accumulators\<close>

text \<open>
  The number of treated patients is the number of bookings.  The utilisation accumulators
  are not the booked minutes: they are increased after the pop, by the treatment time of
  the patient who is on top then.  In the state below a patient with treatment time 120
  is on top and a patient with treatment time 40 waits behind; the doctor is booked until
  minute 120 and the accumulator grows by 40.
\<close>

lemma patientsTreated_assign:
  "patientsTreated (assign_resources s) = patientsTreated s + int (length (bookings_of s))"
  by (cases "find_assignment s")
    (auto simp: assign_resources_None assign_resources_Some bookings_of_def)

lemma patientsTreated_generate_arrivals:
  assumes "generate_arrivals c lam s = Some s0"
  shows "patientsTreated s0 = patientsTreated s"
proof -
  let ?I = "\<lambda>u::sim. patientsTreated u = patientsTreated s"
  have "?I s0 \<and> \<not> (nextArrivalTime s0 \<le> currentTime s0 \<and> nextArrivalTime s0 < SIMULATION_MINUTES c)"
    using assms
  proof (rule generate_arrivals_rule)
    show "?I s" by simp
  next
    fix u
    assume "?I u"
    then show "?I (admit_patient lam u)" by (simp add: admit_patient_fields)
  qed
  then show ?thesis by simp
qed

lemma run_log_patientsTreated:
  assumes "run_log c g s bks"
  shows "patientsTreated s = int (length bks)"
  using assms
proof (induction rule: run_log.induct)
  case run_log_init
  show ?case by (simp add: init_def case_prod_unfold Let_def)
next
  case (run_log_tick s bks s1)
  from run_log_tick(3) obtain s0 where
    s0: "generate_arrivals c (BASE_LAMBDA c * predictArrivalRate (currentTime s sdiv 60)) s = Some s0"
    and s1: "s1 = advance_clock c s0"
    by (rule arrive_and_advance_Some)
  have "patientsTreated s1 = patientsTreated s"
    using patientsTreated_generate_arrivals [OF s0] by (simp add: s1 advance_clock_fields)
  with run_log_tick.IH show ?case by (simp add: patientsTreated_assign)
qed

lemma utilization_after_pop:
  "doctors (assign_resources
     \<lparr>rng = example_rng 7,
      doctors = [\<lparr>available = True, endTime = 0\<rparr>], beds = [\<lparr>available = True, endTime = 0\<rparr>],
      waitingRoom =
        [\<lparr>pid = 1, arrivalTime = 0, severity = 5, treatmentTime = 120, waitTime = 0,
          startTreatmentTime = 0\<rparr>,
         \<lparr>pid = 2, arrivalTime = 0, severity = 1, treatmentTime = 40, waitTime = 0,
          startTreatmentTime = 0\<rparr>],
      allPatients = [], nextPatientId = 3, currentTime = 0, nextArrivalTime = 600,
      totalWaitTime = 0, totalPatients = 2, patientsTreated = 0, doctorUtilization = 0,
      bedUtilization = 0\<rparr>) = [\<lparr>available = False, endTime = 120\<rparr>] \<and>
   doctorUtilization (assign_resources
     \<lparr>rng = example_rng 7,
      doctors = [\<lparr>available = True, endTime = 0\<rparr>], beds = [\<lparr>available = True, endTime = 0\<rparr>],
      waitingRoom =
        [\<lparr>pid = 1, arrivalTime = 0, severity = 5, treatmentTime = 120, waitTime = 0,
          startTreatmentTime = 0\<rparr>,
         \<lparr>pid = 2, arrivalTime = 0, severity = 1, treatmentTime = 40, waitTime = 0,
          startTreatmentTime = 0\<rparr>],
      allPatients = [], nextPatientId = 3, currentTime = 0, nextArrivalTime = 600,
      totalWaitTime = 0, totalPatients = 2, patientsTreated = 0, doctorUtilization = 0,
      bedUtilization = 0\<rparr>) = 40"
  by (simp add: assign_resources_def find_assignment_def usable_def pq_top_def pq_pop_def
      pq_set_top_def front_slot_def PatientComparator_def Let_def)

section \<open>The queue and the summary\<close>

lemma waitingRoom_assign_resources:
  "waitingRoom (assign_resources s) = waitingRoom s \<or>
   waitingRoom (assign_resources s) = pq_pop (waitingRoom s)"
proof (cases "find_assignment s")
  case None
  then show ?thesis by (simp add: assign_resources_None)
next
  case (Some x)
  obtain t d b where "x = (t, d, b)" by (cases x) auto
  with Some show ?thesis by (simp add: assign_resources_Some)
qed

text \<open>
  C7.  The comparator orders by severity and then, in reverse, by arrival time.  In a
  non-empty queue the patient on top is in the queue, \<open>pop\<close> removes exactly this patient,
  and it is never a patient \<open>b\<close> for which some patient \<open>a\<close> of the queue has a strictly
  higher severity, or the same severity and an earlier arrival.  The allocation step
  leaves the queue as it is or pops it, so while \<open>a\<close> and \<open>b\<close> are both waiting, \<open>b\<close> is
  not dequeued.
\<close>

theorem waiting_queue_order:
  assumes "q \<noteq> []"
  shows "pq_top q \<in> set q \<and>
         mset (pq_pop q) = mset q - {#pq_top q#} \<and>
         (\<forall>a b. PatientComparator b a \<longleftrightarrow>
            severity b < severity a \<or> (severity b = severity a \<and> arrivalTime a < arrivalTime b)) \<and>
         (\<forall>a\<in>set q. \<forall>b\<in>set q.
            severity b < severity a \<or> (severity b = severity a \<and> arrivalTime a < arrivalTime b)
            \<longrightarrow> pq_top q \<noteq> b) \<and>
         (\<forall>s. waitingRoom s = q \<longrightarrow>
            waitingRoom (assign_resources s) = q \<or> waitingRoom (assign_resources s) = pq_pop q)"
proof -
  have cmp: "PatientComparator b a \<longleftrightarrow>
      severity b < severity a \<or> (severity b = severity a \<and> arrivalTime a < arrivalTime b)" for a b
    by (auto simp: PatientComparator_def)
  have "pq_top q \<noteq> b" if "a \<in> set q" "PatientComparator b a" for a b
    using pq_top_greatest [OF that(1)] that(2) by auto
  moreover have "waitingRoom (assign_resources s) = q \<or> waitingRoom (assign_resources s) = pq_pop q"
    if "waitingRoom s = q" for s
    using waitingRoom_assign_resources [of s] that by simp
  ultimately show ?thesis
    using assms cmp by (simp add: pq_top_in mset_pq_pop)
qed

theorem waiting_queue_order_witness:
  "[\<lparr>pid = 1, arrivalTime = 0, severity = 3, treatmentTime = 60, waitTime = 0,
       startTreatmentTime = 0\<rparr>,
     \<lparr>pid = 2, arrivalTime = 7, severity = 5, treatmentTime = 80, waitTime = 0,
       startTreatmentTime = 0\<rparr>] \<noteq> [] \<and>
   pid (pq_top [\<lparr>pid = 1, arrivalTime = 0, severity = 3, treatmentTime = 60, waitTime = 0,
       startTreatmentTime = 0\<rparr>,
     \<lparr>pid = 2, arrivalTime = 7, severity = 5, treatmentTime = 80, waitTime = 0,
       startTreatmentTime = 0\<rparr>]) = 2"
  using waiting_queue_order [of
    "[\<lparr>pid = 1, arrivalTime = 0, severity = 3, treatmentTime = 60, waitTime = 0,
       startTreatmentTime = 0\<rparr>,
     \<lparr>pid = 2, arrivalTime = 7, severity = 5, treatmentTime = 80, waitTime = 0,
       startTreatmentTime = 0\<rparr>]"]
  by (simp add: pq_top_def PatientComparator_def)



end
